theory Spec2Isabelle
  imports Complex_Main "HOL-Library.Multiset"
begin

section \<open>Numbers\<close>

text \<open>
  The program is TypeScript; every quantity is a JavaScript \<^verbatim>\<open>number\<close>, a binary64
  value. The model reads a number as a real and \<^verbatim>\<open>* /\<close>, \<^verbatim>\<open>Math.exp\<close>, \<^verbatim>\<open>Math.pow\<close>,
  \<^verbatim>\<open>Math.max\<close>, \<^verbatim>\<open>Math.abs\<close> as the real operations (\<^verbatim>\<open>Math.pow(x, 2)\<close> is \<open>x ^ 2\<close>,
  \<^verbatim>\<open>Math.pow(x, 1.5)\<close> is \<open>x powr 1.5\<close>), \<^verbatim>\<open>Math.PI\<close> as \<open>pi\<close>.

  Three operations of the source decide a branch or the end of a loop, so that their
  rounding shows in the result: \<^verbatim>\<open>Math.cos\<close> (the test \<^verbatim>\<open>cosA > 0\<close>), \<^verbatim>\<open>Math.tan\<close> (huge
  next to its pole) and the addition of \<^verbatim>\<open>a += step\<close> (the test \<^verbatim>\<open>a <= 90\<close>). They are
  parameters of the model, the fields of a record \<open>F\<close>: \<open>cos64 F x\<close> is what \<^verbatim>\<open>Math.cos\<close>
  returns at the number the source computes for \<open>x\<close>, likewise \<open>tan64 F\<close>, and
  \<open>add64 F a step\<close> is the sum the loop stores. A theorem holds for every \<open>F\<close>, under the
  hypotheses on \<open>F\<close> that it states. \<open>exactOps\<close> is the instance with the real cosine,
  tangent and sum.
\<close>

record float_ops =
  cos64 :: "real \<Rightarrow> real"
  tan64 :: "real \<Rightarrow> real"
  add64 :: "real \<Rightarrow> real \<Rightarrow> real"

definition exactOps :: float_ops where
  "exactOps = \<lparr>cos64 = cos, tan64 = tan, add64 = (+)\<rparr>"

text \<open>
  \<^verbatim>\<open>Number(v.toFixed(4))\<close>: the sign is split off, and the magnitude is rounded to the
  nearest multiple of \<open>1/10000\<close>, the larger one on a tie.
\<close>

definition toFixed4 :: "real \<Rightarrow> real" where
  "toFixed4 v =
     (if v < 0 then - (of_int \<lfloor>(- v) * 10000 + 1 / 2\<rfloor> / 10000)
      else of_int \<lfloor>v * 10000 + 1 / 2\<rfloor> / 10000)"

section \<open>The scattering engine\<close>

record ScatteringData =
  angle :: real
  intensity :: real

text \<open>The regime parameter \<open>g\<close> (source lines 66 to 69).\<close>

definition gParam :: "float_ops \<Rightarrow> real \<Rightarrow> real \<Rightarrow> real \<Rightarrow> real" where
  "gParam F ra lambda thetaInc =
     (let sigma = ra * 1.25;
          thetaRad = (thetaInc * pi) / 180;
          safeLambda = max 0.0001 lambda
      in ((4 * pi * sigma * cos64 F thetaRad) / safeLambda) ^ 2)"

text \<open>The resolution of \<^verbatim>\<open>activeModel\<close> (source lines 74 to 79).\<close>

definition resolveModel :: "string \<Rightarrow> real \<Rightarrow> string" where
  "resolveModel modelType g =
     (if modelType = ''Auto'' then
        (if g < 0.01 then ''Rayleigh-Rice''
         else if g > 15 then ''Beckmann''
         else ''Harvey-Shack'')
      else modelType)"

text \<open>The body of the sweep at one angle \<open>a\<close>, before the clamp (source lines 82 to 103).\<close>

definition sampleIntensity ::
  "float_ops \<Rightarrow> string \<Rightarrow> real \<Rightarrow> real \<Rightarrow> real \<Rightarrow> real \<Rightarrow> real \<Rightarrow> real \<Rightarrow> real \<Rightarrow> real" where
  "sampleIntensity F activeModel ra lambda thetaInc step slopeFactor g a =
     (let thetaRad = (thetaInc * pi) / 180;
          aRad = (a * pi) / 180;
          diff = \<bar>a - thetaInc\<bar>
      in if activeModel = ''Rayleigh-Rice'' then
           (let peakWidth = max (step * 2) (0.2 * (lambda / max 0.00001 (ra * 1000)));
                specular = exp (- g) * exp (- ((diff / peakWidth) ^ 2));
                diffuse = (1 - exp (- g)) * (cos64 F aRad) ^ 4
            in specular + diffuse * 0.05)
         else if activeModel = ''Beckmann'' then
           (let m = max 0.005 ((ra / 5) * slopeFactor);
                cosA = cos64 F aRad
            in if cosA > 0 then
                 (let exponent = - ((tan64 F (aRad - thetaRad)) ^ 2) / (2 * m * m)
                  in (1 / (pi * m * m * cosA ^ 4)) * exp exponent)
               else 0)
         else
           (let spec = exp (- g) * exp (- ((diff / (1.5 * slopeFactor)) ^ 2));
                diffu = (1 - exp (- g)) * (cos64 F aRad) powr 1.5
            in spec + diffu * 0.3))"

text \<open>The record pushed at angle \<open>a\<close> (source line 105).\<close>

definition sample ::
  "float_ops \<Rightarrow> string \<Rightarrow> real \<Rightarrow> real \<Rightarrow> real \<Rightarrow> real \<Rightarrow> real \<Rightarrow> real \<Rightarrow> real \<Rightarrow> ScatteringData" where
  "sample F activeModel ra lambda thetaInc step slopeFactor g a =
     \<lparr>angle = toFixed4 a,
      intensity = max 0 (sampleIntensity F activeModel ra lambda thetaInc step slopeFactor g a)\<rparr>"

text \<open>
  The loop \<^verbatim>\<open>for (let a = -90; a <= 90; a += step)\<close>, with \<open>f a\<close> the record pushed at
  \<open>a\<close>. When the stored sum never passes 90 (\<open>step \<le> 0\<close>, or a step too small to change
  \<open>a\<close>) the loop never leaves; the model then has no value (\<open>None\<close>).
\<close>

partial_function (option) sweep ::
  "float_ops \<Rightarrow> (real \<Rightarrow> ScatteringData) \<Rightarrow> real \<Rightarrow> real \<Rightarrow> ScatteringData list
     \<Rightarrow> ScatteringData list option"
where
  "sweep F f step a data =
     (if a \<le> 90 then sweep F f step (add64 F a step) (data @ [f a]) else Some data)"

text \<open>The value of the loop variable after \<open>k\<close> rounds that started with the value \<open>a\<close>.\<close>

definition loopVar :: "float_ops \<Rightarrow> real \<Rightarrow> real \<Rightarrow> nat \<Rightarrow> real" where
  "loopVar F step a k = ((\<lambda>x. add64 F x step) ^^ k) a"

text \<open>
  The loop from \<open>- 90\<close> makes exactly \<open>n\<close> rounds: the variable is at most 90 before each
  of them and above 90 after the last; there is at least one round.
\<close>

definition rounds :: "float_ops \<Rightarrow> real \<Rightarrow> nat \<Rightarrow> bool" where
  "rounds F step n \<longleftrightarrow>
     0 < n \<and> (\<forall>k<n. loopVar F step (- 90) k \<le> 90) \<and> 90 < loopVar F step (- 90) n"

text \<open>
  The loop advances: every round adds at least \<open>d > 0\<close> to an \<open>a\<close> of the range. For the
  exact sum this is \<open>step > 0\<close> (with \<open>d = step\<close>); the binary64 sum advances by at least
  \<open>step / 2\<close> when \<open>step\<close> is above the spacing of the numbers near 90 (about
  \<open>1.5 / 10 ^ 14\<close>).
\<close>

definition advances :: "float_ops \<Rightarrow> real \<Rightarrow> real \<Rightarrow> bool" where
  "advances F step d \<longleftrightarrow> 0 < d \<and> (\<forall>a. - 90 \<le> a \<and> a \<le> 90 \<longrightarrow> a + d \<le> add64 F a step)"

text \<open>
  With the exact sum the loop visits, from \<open>a\<close> on, the angles \<open>a + k * step\<close> that are at
  most 90. \<open>sweepCount\<close> is their number.
\<close>

definition sweepCount :: "real \<Rightarrow> real \<Rightarrow> nat" where
  "sweepCount step a = (if a \<le> 90 then nat \<lfloor>(90 - a) / step\<rfloor> + 1 else 0)"

definition sweepAngles :: "real \<Rightarrow> real \<Rightarrow> real list" where
  "sweepAngles step a = map (\<lambda>k. a + real k * step) [0..<sweepCount step a]"

text \<open>\<^verbatim>\<open>data.reduce((max, item) => (item.intensity > max ? item.intensity : max), 0)\<close>\<close>

definition rawMax :: "ScatteringData list \<Rightarrow> real" where
  "rawMax data = foldl (\<lambda>mx item. if intensity item > mx then intensity item else mx) 0 data"

text \<open>The final \<^verbatim>\<open>data.map\<close>; \<^verbatim>\<open>rawMaxIntensity || 1\<close> is 1 when the maximum is 0.\<close>

definition normalise :: "real \<Rightarrow> ScatteringData list \<Rightarrow> ScatteringData list" where
  "normalise reflectivity data =
     (let rawMaxIntensity = rawMax data
      in map (\<lambda>d. d\<lparr>intensity :=
                (intensity d / (if rawMaxIntensity = 0 then 1 else rawMaxIntensity)) * reflectivity\<rparr>)
           data)"

definition calculateScattering ::
  "float_ops \<Rightarrow> real \<Rightarrow> real \<Rightarrow> real \<Rightarrow> string \<Rightarrow> real \<Rightarrow> real \<Rightarrow> real \<Rightarrow> ScatteringData list option" where
  "calculateScattering F ra lambda thetaInc modelType step reflectivity slopeFactor =
     (let g = gParam F ra lambda thetaInc;
          activeModel = resolveModel modelType g
      in case sweep F (sample F activeModel ra lambda thetaInc step slopeFactor g) step (- 90) [] of
           None \<Rightarrow> None
         | Some data \<Rightarrow> Some (normalise reflectivity data))"

text \<open>
  The Harvey-Shack formula with the real cosine as a function of the angular distance \<open>t\<close>
  from the normal, for normal incidence (\<open>thetaInc = 0\<close>, where \<open>diff = \<bar>a\<bar>\<close> and
  \<open>cos aRad = cos \<bar>aRad\<bar>\<close>); \<open>w\<close> is the width \<open>1.5 * slopeFactor\<close>.
\<close>

definition hsProfile :: "real \<Rightarrow> real \<Rightarrow> real \<Rightarrow> real" where
  "hsProfile g w t =
     exp (- g) * exp (- ((t / w) ^ 2)) + 0.3 * (1 - exp (- g)) * (cos ((t * pi) / 180)) powr 1.5"

section \<open>Energy concentration\<close>

record EnergyConcentrationStats =
  e50 :: real
  e90 :: real
  e99 :: real

text \<open>
  The loop over the sorted samples (source lines 125 to 132): \<open>i\<close> is the index of the
  head of the remaining list, \<open>currentSum\<close> the running sum, and a count is set once,
  while it is still 0. The \<^verbatim>\<open>break\<close> leaves with the counts as they are.
\<close>

fun ecLoop :: "real \<Rightarrow> ScatteringData list \<Rightarrow> nat \<Rightarrow> real \<Rightarrow> nat \<times> nat \<times> nat \<Rightarrow> nat \<times> nat \<times> nat" where
  "ecLoop tot [] i currentSum (e50Count, e90Count, e99Count) = (e50Count, e90Count, e99Count)"
| "ecLoop tot (d # ds) i currentSum (e50Count, e90Count, e99Count) =
     (let currentSum' = currentSum + intensity d;
          ratio = currentSum' / tot;
          e50Count' = (if e50Count = 0 \<and> ratio \<ge> 0.50 then i + 1 else e50Count);
          e90Count' = (if e90Count = 0 \<and> ratio \<ge> 0.90 then i + 1 else e90Count);
          e99Count' = (if e99Count = 0 \<and> ratio \<ge> 0.99 then i + 1 else e99Count)
      in if e99Count' \<noteq> 0 then (e50Count', e90Count', e99Count')
         else ecLoop tot ds (i + 1) currentSum' (e50Count', e90Count', e99Count'))"

text \<open>
  \<^verbatim>\<open>[...data].sort((a, b) => b.intensity - a.intensity)\<close>: a stable sort, descending in
  the intensity; \<open>sort_key\<close> is the stable insertion sort, ascending in its key.
\<close>

definition sortDesc :: "ScatteringData list \<Rightarrow> ScatteringData list" where
  "sortDesc data = sort_key (\<lambda>d. - intensity d) data"

definition calculateEnergyConcentration :: "ScatteringData list \<Rightarrow> real \<Rightarrow> EnergyConcentrationStats" where
  "calculateEnergyConcentration data step =
     (let tot = foldl (\<lambda>acc d. acc + intensity d) 0 data
      in if tot = 0 then \<lparr>e50 = 0, e90 = 0, e99 = 0\<rparr>
         else (case ecLoop tot (sortDesc data) 0 0 (0, 0, 0) of
                 (e50Count, e90Count, e99Count) \<Rightarrow>
                   \<lparr>e50 = toFixed4 (real e50Count * step),
                    e90 = toFixed4 (real e90Count * step),
                    e99 = toFixed4 (real e99Count * step)\<rparr>))"

text \<open>
  The specification's words for one threshold \<open>t\<close>: the count \<open>i + 1\<close> of the first index
  \<open>i\<close> at which the running sum divided by the total reaches \<open>t\<close>, and 0 when no index
  does. \<open>xs\<close> are the intensities from index \<open>i\<close> on, \<open>s\<close> the sum before them.
\<close>

fun reachCount :: "real \<Rightarrow> real \<Rightarrow> real list \<Rightarrow> nat \<Rightarrow> real \<Rightarrow> nat" where
  "reachCount t tot [] i s = 0"
| "reachCount t tot (x # xs) i s =
     (if (s + x) / tot \<ge> t then i + 1 else reachCount t tot xs (i + 1) (s + x))"

section \<open>Surface profiles\<close>

text \<open>
  \<^verbatim>\<open>Math.random()\<close> is the only effect of the two generators. The model takes the
  draws as a stream \<open>rnd\<close>: \<open>rnd k\<close> is the value of the call number \<open>k\<close> (from 0) of
  one run. The lengths \<^verbatim>\<open>length\<close> and \<^verbatim>\<open>size\<close> are natural numbers (\<open>len\<close>, \<open>sz\<close>).
\<close>

text \<open>A point \<^verbatim>\<open>{ x: i, y: val }\<close> of the profile.\<close>

record ProfilePoint =
  point_x :: nat
  point_y :: real

function profileLoop ::
  "(nat \<Rightarrow> real) \<Rightarrow> real \<Rightarrow> real \<Rightarrow> nat \<Rightarrow> nat \<Rightarrow> real \<Rightarrow> ProfilePoint list \<Rightarrow> ProfilePoint list" where
  "profileLoop rnd rq alpha len i prev points =
     (if i < len then
        (let noise = (rnd i - 0.5) * 4 * rq;
             val = prev * (1 - alpha) + noise * alpha
         in profileLoop rnd rq alpha len (i + 1) val (points @ [\<lparr>point_x = i, point_y = val\<rparr>]))
      else points)"
  by pat_completeness auto
termination
  by (relation "measure (\<lambda>(rnd, rq, alpha, len, i, prev, points). len - i)") auto

declare profileLoop.simps [simp del]

definition generateSurfaceProfile :: "(nat \<Rightarrow> real) \<Rightarrow> real \<Rightarrow> nat \<Rightarrow> ProfilePoint list" where
  "generateSurfaceProfile rnd ra len =
     (let rq = ra * 1.25;
          alpha = 0.15
      in profileLoop rnd rq alpha len 0 0 [])"

text \<open>
  The specification's recurrence for the heights: \<open>value = prev * (1 - alpha) + noise * alpha\<close>
  with \<open>prev\<close> 0 at index 0 and the value before otherwise.
\<close>

fun profileHeight :: "(nat \<Rightarrow> real) \<Rightarrow> real \<Rightarrow> real \<Rightarrow> nat \<Rightarrow> real" where
  "profileHeight rnd rq alpha 0 = 0 * (1 - alpha) + ((rnd 0 - 0.5) * 4 * rq) * alpha"
| "profileHeight rnd rq alpha (Suc k) =
     profileHeight rnd rq alpha k * (1 - alpha) + ((rnd (Suc k) - 0.5) * 4 * rq) * alpha"

text \<open>The raw grid (source lines 26 to 32): cell \<open>(i, j)\<close> takes draw number \<open>i * sz + j\<close>.\<close>

definition rawGrid :: "(nat \<Rightarrow> real) \<Rightarrow> real \<Rightarrow> nat \<Rightarrow> real list list" where
  "rawGrid rnd rq sz =
     map (\<lambda>i. map (\<lambda>j. (rnd (i * sz + j) - 0.5) * 2 * rq) [0..<sz]) [0..<sz]"

text \<open>The offsets \<open>(di, dj)\<close> in the order of the two inner loops.\<close>

definition offsets :: "(int \<times> int) list" where
  "offsets = [(- 1, - 1), (- 1, 0), (- 1, 1), (0, - 1), (0, 0), (0, 1), (1, - 1), (1, 0), (1, 1)]"

text \<open>One step of the inner loops (source lines 42 to 47) on the pair of \<^verbatim>\<open>sum\<close> and \<^verbatim>\<open>count\<close>.\<close>

definition visit :: "real list list \<Rightarrow> nat \<Rightarrow> nat \<Rightarrow> nat \<Rightarrow> real \<times> nat \<Rightarrow> int \<times> int \<Rightarrow> real \<times> nat" where
  "visit grid sz i j acc d =
     (case acc of (sm, cnt) \<Rightarrow> case d of (di, dj) \<Rightarrow>
        (let ni = int i + di;
             nj = int j + dj
         in if ni \<ge> 0 \<and> ni < int sz \<and> nj \<ge> 0 \<and> nj < int sz
            then (sm + grid ! nat ni ! nat nj, cnt + 1)
            else (sm, cnt)))"

definition smoothCell :: "real list list \<Rightarrow> nat \<Rightarrow> nat \<Rightarrow> nat \<Rightarrow> real" where
  "smoothCell grid sz i j =
     (case foldl (visit grid sz i j) (0, 0) offsets of (sm, cnt) \<Rightarrow> sm / real cnt)"

text \<open>The number \<^verbatim>\<open>count\<close> of cells the loops add up at \<open>(i, j)\<close>.\<close>

definition cellCount :: "real list list \<Rightarrow> nat \<Rightarrow> nat \<Rightarrow> nat \<Rightarrow> nat" where
  "cellCount grid sz i j = snd (foldl (visit grid sz i j) (0, 0) offsets)"

definition generateSurfaceProfile3D :: "(nat \<Rightarrow> real) \<Rightarrow> real \<Rightarrow> nat \<Rightarrow> real list list" where
  "generateSurfaceProfile3D rnd ra sz =
     (let rq = ra * 1.25;
          grid = rawGrid rnd rq sz
      in map (\<lambda>i. map (\<lambda>j. smoothCell grid sz i j) [0..<sz]) [0..<sz])"

text \<open>
  The cells of the 3 by 3 window around \<open>(i, j)\<close> that lie in the grid, row by row: the
  specification's truncated neighbourhood.
\<close>

definition near :: "nat \<Rightarrow> nat \<Rightarrow> nat list" where
  "near sz i = (if 0 < i then [i - 1] else []) @ [i] @ (if i + 1 < sz then [i + 1] else [])"

definition window :: "nat \<Rightarrow> nat \<Rightarrow> nat \<Rightarrow> (nat \<times> nat) list" where
  "window sz i j = concat (map (\<lambda>ni. map (\<lambda>nj. (ni, nj)) (near sz j)) (near sz i))"

section \<open>Properties of the 1-D profile generator\<close>

lemma profileLoop_eq:
  "prev = (if i = 0 then 0 else profileHeight rnd rq alpha (i - 1)) \<Longrightarrow>
   profileLoop rnd rq alpha len i prev points =
     points @ map (\<lambda>k. \<lparr>point_x = k, point_y = profileHeight rnd rq alpha k\<rparr>) [i..<len]"
proof (induction rnd rq alpha len i prev points rule: profileLoop.induct)
  case (1 rnd rq alpha len i prev points)
  show ?case
  proof (cases "i < len")
    case False
    then show ?thesis by (subst profileLoop.simps) simp
  next
    case True
    let ?noise = "(rnd i - 0.5) * 4 * rq"
    let ?val = "prev * (1 - alpha) + ?noise * alpha"
    have v: "?val = profileHeight rnd rq alpha i"
      using "1.prems" by (cases i) simp_all
    have "profileLoop rnd rq alpha len i prev points =
          profileLoop rnd rq alpha len (i + 1) ?val (points @ [\<lparr>point_x = i, point_y = ?val\<rparr>])"
      using True by (subst profileLoop.simps) (simp add: Let_def)
    also have "\<dots> = (points @ [\<lparr>point_x = i, point_y = ?val\<rparr>]) @
        map (\<lambda>k. \<lparr>point_x = k, point_y = profileHeight rnd rq alpha k\<rparr>) [i + 1..<len]"
    proof (rule "1.IH"[OF True refl refl])
      show "?val = (if i + 1 = 0 then 0 else profileHeight rnd rq alpha (i + 1 - 1))"
        using v by simp
    qed
    also have "\<dots> = points @ map (\<lambda>k. \<lparr>point_x = k, point_y = profileHeight rnd rq alpha k\<rparr>) [i..<len]"
      using True unfolding v by (simp add: upt_conv_Cons)
    finally show ?thesis .
  qed
qed

lemma generateSurfaceProfile_eq:
  "generateSurfaceProfile rnd ra len =
     map (\<lambda>k. \<lparr>point_x = k, point_y = profileHeight rnd (ra * 1.25) 0.15 k\<rparr>) [0..<len]"
  by (simp add: generateSurfaceProfile_def Let_def profileLoop_eq)

text \<open>
  C9: \<^verbatim>\<open>generateSurfaceProfile\<close> returns exactly \<open>len\<close> points with the x-indices
  \<open>0, \<dots>, len - 1\<close>; each height is \<open>prev * (1 - 0.15) + noise * 0.15\<close> with \<open>prev\<close> 0 at
  index 0 and the height emitted before otherwise, and the noise \<open>(U - 0.5) * 4 * (1.25 * ra)\<close>
  of the draw \<open>U\<close> of that index. The function is total: it has no error branch, for any
  \<open>ra\<close> and any \<open>len\<close>.
\<close>

theorem generateSurfaceProfile_recurrence:
  "length (generateSurfaceProfile rnd ra len) = len \<and>
   map point_x (generateSurfaceProfile rnd ra len) = [0..<len] \<and>
   (\<forall>i<len. point_y (generateSurfaceProfile rnd ra len ! i) =
       (if i = 0 then 0 else point_y (generateSurfaceProfile rnd ra len ! (i - 1))) * (1 - 0.15)
       + ((rnd i - 0.5) * 4 * (1.25 * ra)) * 0.15)"
proof (intro conjI allI impI)
  show "length (generateSurfaceProfile rnd ra len) = len"
    by (simp add: generateSurfaceProfile_eq)
  show "map point_x (generateSurfaceProfile rnd ra len) = [0..<len]"
    by (simp add: generateSurfaceProfile_eq comp_def)
  fix i assume "i < len"
  then show "point_y (generateSurfaceProfile rnd ra len ! i) =
       (if i = 0 then 0 else point_y (generateSurfaceProfile rnd ra len ! (i - 1))) * (1 - 0.15)
       + ((rnd i - 0.5) * 4 * (1.25 * ra)) * 0.15"
    by (cases i) (simp_all add: generateSurfaceProfile_eq mult.commute)
qed

theorem generateSurfaceProfile_recurrence_witness:
  "length (generateSurfaceProfile (\<lambda>k. 1) 2 3) = 3 \<and>
   map point_x (generateSurfaceProfile (\<lambda>k. 1) 2 3) = [0, 1, 2] \<and>
   point_y (generateSurfaceProfile (\<lambda>k. 1) 2 3 ! 1) =
     point_y (generateSurfaceProfile (\<lambda>k. 1) 2 3 ! 0) * (1 - 0.15) + ((1 - 0.5) * 4 * (1.25 * 2)) * 0.15"
proof -
  note h = generateSurfaceProfile_recurrence [of "\<lambda>k. 1" 2 3]
  have u: "[0..<3] = [0, 1, 2]"
    by (simp add: upt_conv_Cons)
  from h have a: "length (generateSurfaceProfile (\<lambda>k. 1) 2 3) = 3"
    by (rule conjunct1)
  from h have b: "map point_x (generateSurfaceProfile (\<lambda>k. 1) 2 3) = [0, 1, 2]"
    unfolding u by (rule conjunct1[OF conjunct2])
  from h have "\<forall>i<3. point_y (generateSurfaceProfile (\<lambda>k. 1) 2 3 ! i) =
       (if i = 0 then 0 else point_y (generateSurfaceProfile (\<lambda>k. 1) 2 3 ! (i - 1))) * (1 - 0.15)
       + ((1 - 0.5) * 4 * (1.25 * 2)) * 0.15"
    by (rule conjunct2[OF conjunct2])
  then have c: "point_y (generateSurfaceProfile (\<lambda>k. 1) 2 3 ! 1) =
       (if (1::nat) = 0 then 0 else point_y (generateSurfaceProfile (\<lambda>k. 1) 2 3 ! (1 - 1))) * (1 - 0.15)
       + ((1 - 0.5) * 4 * (1.25 * 2)) * 0.15"
    by (rule allE) (rule mp, assumption, simp)
  from a b c show ?thesis by simp
qed

section \<open>Rounding to four decimals\<close>

lemma toFixed4_of_int: "toFixed4 (of_int z) = of_int z"
proof -
  have "\<lfloor>of_int z * 10000 + 1 / 2 :: real\<rfloor> = z * 10000"
    by linarith
  moreover have "\<lfloor>- of_int z * 10000 + 1 / 2 :: real\<rfloor> = - z * 10000"
    by linarith
  ultimately show ?thesis
    by (simp add: toFixed4_def)
qed

lemma toFixed4_mono:
  assumes "v \<le> w"
  shows "toFixed4 v \<le> toFixed4 w"
proof -
  have a: "\<lfloor>v * 10000 + 1 / 2\<rfloor> \<le> \<lfloor>w * 10000 + 1 / 2\<rfloor>"
    using assms by (intro floor_mono) simp
  have b: "\<lfloor>(- w) * 10000 + 1 / 2\<rfloor> \<le> \<lfloor>(- v) * 10000 + 1 / 2\<rfloor>"
    using assms by (intro floor_mono) simp
  have c: "0 \<le> \<lfloor>(- v) * 10000 + 1 / 2\<rfloor>" if "v < 0"
    using that by simp
  have d: "0 \<le> \<lfloor>w * 10000 + 1 / 2\<rfloor>" if "0 \<le> w"
    using that by simp
  show ?thesis
    using assms a b c d
    by (auto simp add: toFixed4_def divide_right_mono intro: order_trans [of _ 0])
qed


lemma toFixed4_90: "toFixed4 90 = 90" "toFixed4 (- 90) = - 90"
  using toFixed4_of_int [of 90] toFixed4_of_int [of "- 90"] by simp_all

section \<open>The angular sweep\<close>

lemma exactOps_sel: "cos64 exactOps = cos" "tan64 exactOps = tan" "add64 exactOps = (+)"
  by (simp_all add: exactOps_def)

subsection \<open>The loop with the exact sum\<close>

lemma sweepCount_step:
  assumes "0 < step" and "a \<le> 90"
  shows "sweepCount step a = Suc (sweepCount step (a + step))"
proof (cases "a + step \<le> 90")
  case True
  have "(90 - a) / step = (90 - (a + step)) / step + 1"
    using assms by (simp add: field_simps)
  then have "\<lfloor>(90 - a) / step\<rfloor> = \<lfloor>(90 - (a + step)) / step\<rfloor> + 1"
    by simp
  moreover have "0 \<le> \<lfloor>(90 - (a + step)) / step\<rfloor>"
    using True assms by simp
  ultimately show ?thesis
    using True assms by (simp add: sweepCount_def nat_add_distrib)
next
  case False
  then have "(90 - a) / step < 1"
    using assms by simp
  moreover have "0 \<le> (90 - a) / step"
    using assms by simp
  ultimately have "\<lfloor>(90 - a) / step\<rfloor> = 0"
    by linarith
  then show ?thesis
    using False assms by (simp add: sweepCount_def)
qed

lemma sweepAngles_Nil: "\<not> a \<le> 90 \<Longrightarrow> sweepAngles step a = []"
  by (simp add: sweepAngles_def sweepCount_def)

lemma sweepAngles_Cons:
  assumes "0 < step" and "a \<le> 90"
  shows "sweepAngles step a = a # sweepAngles step (a + step)"
proof -
  have "map (\<lambda>k. a + real k * step) [0..<Suc n] = a # map (\<lambda>k. a + step + real k * step) [0..<n]" for n
    by (simp add: upt_conv_Cons map_Suc_upt [symmetric] algebra_simps del: upt_Suc)
  then show ?thesis
    by (simp add: sweepAngles_def sweepCount_step [OF assms] del: upt_Suc)
qed

lemma sweep_Some:
  assumes "0 < step"
  shows "sweep exactOps f step a data = Some (data @ map f (sweepAngles step a))"
proof (induction "sweepCount step a" arbitrary: a data)
  case 0
  then have "\<not> a \<le> 90"
    by (simp add: sweepCount_def split: if_splits)
  then show ?case
    by (subst sweep.simps) (simp add: sweepAngles_Nil)
next
  case (Suc n)
  then have le: "a \<le> 90"
    by (simp add: sweepCount_def split: if_splits)
  from Suc.hyps(2) have "n = sweepCount step (a + step)"
    by (simp add: sweepCount_step [OF assms le])
  then have "sweep exactOps f step (a + step) (data @ [f a]) =
      Some ((data @ [f a]) @ map f (sweepAngles step (a + step)))"
    by (rule Suc.hyps(1))
  then show ?case
    using le by (subst sweep.simps) (simp add: sweepAngles_Cons [OF assms le] exactOps_def)
qed

lemma sweepCount_start: "0 < step \<Longrightarrow> sweepCount step (- 90) = nat \<lfloor>180 / step\<rfloor> + 1"
  by (simp add: sweepCount_def)

lemma sweepAngles_bound:
  assumes "0 < step" and "k < sweepCount step a"
  shows "a + real k * step \<le> 90"
proof -
  from assms(2) have le: "a \<le> 90"
    by (simp add: sweepCount_def split: if_splits)
  then have "0 \<le> (90 - a) / step" using assms by simp
  then have z: "0 \<le> \<lfloor>(90 - a) / step\<rfloor>" by simp
  have "k < nat \<lfloor>(90 - a) / step\<rfloor> + 1"
    using assms(2) le by (simp add: sweepCount_def)
  with z have "int k \<le> \<lfloor>(90 - a) / step\<rfloor>"
    by linarith
  then have "real k \<le> (90 - a) / step"
    by (simp add: le_floor_iff)
  then have "real k * step \<le> 90 - a"
    using assms(1) by (simp add: pos_le_divide_eq)
  then show ?thesis by simp
qed

lemma sweepAngles_last:
  assumes "0 < step" and "a \<le> 90"
  shows "90 < a + real (sweepCount step a) * step"
proof -
  have "0 \<le> (90 - a) / step" using assms by simp
  then have "0 \<le> \<lfloor>(90 - a) / step\<rfloor>" by simp
  then have "real (sweepCount step a) = of_int \<lfloor>(90 - a) / step\<rfloor> + 1"
    using assms by (simp add: sweepCount_def)
  moreover have "(90 - a) / step < of_int \<lfloor>(90 - a) / step\<rfloor> + 1"
    by linarith
  ultimately have "(90 - a) / step < real (sweepCount step a)" by simp
  then have "90 - a < real (sweepCount step a) * step"
    using assms(1) by (simp add: pos_divide_less_eq)
  then show ?thesis by simp
qed

subsection \<open>The loop with any sum that advances\<close>

lemma loopVar_0: "loopVar F step a 0 = a"
  by (simp add: loopVar_def)

lemma loopVar_Suc: "loopVar F step a (Suc k) = add64 F (loopVar F step a k) step"
  by (simp add: loopVar_def)

lemma loopVar_shift: "loopVar F step a (Suc k) = loopVar F step (add64 F a step) k"
  by (simp only: loopVar_def funpow_Suc_right o_apply)

lemma sweepCount_mono:
  assumes "0 < d" and "a \<le> b"
  shows "sweepCount d b \<le> sweepCount d a"
proof (cases "b \<le> 90")
  case True
  have "(90 - b) / d \<le> (90 - a) / d"
    using assms by (simp add: divide_right_mono)
  then have "\<lfloor>(90 - b) / d\<rfloor> \<le> \<lfloor>(90 - a) / d\<rfloor>"
    by (rule floor_mono)
  then show ?thesis
    using True assms by (simp add: sweepCount_def nat_mono)
next
  case False
  then show ?thesis by (simp add: sweepCount_def)
qed

lemma sweepCount_less:
  assumes "0 < d" and "a \<le> 90" and "a + d \<le> b"
  shows "sweepCount d b < sweepCount d a"
proof -
  have "sweepCount d b \<le> sweepCount d (a + d)"
    using assms(1,3) by (rule sweepCount_mono)
  also have "\<dots> < sweepCount d a"
    by (simp add: sweepCount_step [OF assms(1,2)])
  finally show ?thesis .
qed

lemma sweep_returns:
  assumes adv: "advances F step d"
  shows "- 90 \<le> a \<Longrightarrow>
    \<exists>n. sweep F f step a data = Some (data @ map (\<lambda>k. f (loopVar F step a k)) [0..<n]) \<and>
        (a \<le> 90 \<longrightarrow> 0 < n) \<and>
        (\<forall>k<n. - 90 \<le> loopVar F step a k \<and> loopVar F step a k \<le> 90 \<and>
                loopVar F step a k + d \<le> loopVar F step a (Suc k)) \<and>
        90 < loopVar F step a n"
proof (induction "sweepCount d a" arbitrary: a data rule: less_induct)
  case less
  from adv have d: "0 < d"
    and step: "\<And>x. - 90 \<le> x \<Longrightarrow> x \<le> 90 \<Longrightarrow> x + d \<le> add64 F x step"
    by (simp_all add: advances_def)
  show ?case
  proof (cases "a \<le> 90")
    case False
    then have "sweep F f step a data = Some data"
      by (subst sweep.simps) simp
    with False show ?thesis
      by (intro exI [of _ 0]) (simp add: loopVar_0)
  next
    case True
    let ?a' = "add64 F a step"
    have up: "a + d \<le> ?a'"
      using less.prems True by (rule step)
    then have low: "- 90 \<le> ?a'"
      using less.prems d by simp
    have "sweepCount d ?a' < sweepCount d a"
      using d True up by (rule sweepCount_less)
    from less.hyps [OF this low, of "data @ [f a]"]
    obtain n where sw: "sweep F f step ?a' (data @ [f a]) =
          Some ((data @ [f a]) @ map (\<lambda>k. f (loopVar F step ?a' k)) [0..<n])"
      and in_range: "\<forall>k<n. - 90 \<le> loopVar F step ?a' k \<and> loopVar F step ?a' k \<le> 90 \<and>
                loopVar F step ?a' k + d \<le> loopVar F step ?a' (Suc k)"
      and out: "90 < loopVar F step ?a' n"
      by blast
    have list: "map (\<lambda>k. f (loopVar F step a k)) [0..<Suc n] =
        f a # map (\<lambda>k. f (loopVar F step ?a' k)) [0..<n]"
      by (simp add: upt_conv_Cons map_Suc_upt [symmetric] loopVar_0 loopVar_shift del: upt_Suc)
    have "sweep F f step a data = sweep F f step ?a' (data @ [f a])"
      using True by (subst sweep.simps) simp
    then have res: "sweep F f step a data =
        Some (data @ map (\<lambda>k. f (loopVar F step a k)) [0..<Suc n])"
      by (simp only: sw list) simp
    have rng: "- 90 \<le> loopVar F step a k \<and> loopVar F step a k \<le> 90 \<and>
                loopVar F step a k + d \<le> loopVar F step a (Suc k)" if "k < Suc n" for k
    proof (cases k)
      case 0
      then show ?thesis
        using less.prems True up by (simp add: loopVar_0 loopVar_Suc)
    next
      case (Suc j)
      with that have "j < n" by simp
      with in_range show ?thesis
        by (simp add: Suc loopVar_shift)
    qed
    have "90 < loopVar F step a (Suc n)"
      using out by (simp add: loopVar_shift)
    with res rng show ?thesis
      by (intro exI [of _ "Suc n"]) simp
  qed
qed

lemma loopVar_grows:
  assumes "\<forall>k<n. loopVar F step a k + d \<le> loopVar F step a (Suc k)"
  shows "j \<le> n \<Longrightarrow> i \<le> j \<Longrightarrow> loopVar F step a i + real (j - i) * d \<le> loopVar F step a j"
proof (induction j)
  case 0
  then show ?case by simp
next
  case (Suc j)
  show ?case
  proof (cases "i = Suc j")
    case True
    then show ?thesis by simp
  next
    case False
    with Suc.prems have ij: "i \<le> j" and jn: "j < n" by simp_all
    from Suc.IH ij jn have "loopVar F step a i + real (j - i) * d \<le> loopVar F step a j"
      by simp
    moreover from assms jn have "loopVar F step a j + d \<le> loopVar F step a (Suc j)"
      by simp
    moreover have "real (Suc j - i) * d = real (j - i) * d + d"
      using ij by (simp add: Suc_diff_le algebra_simps)
    ultimately show ?thesis by simp
  qed
qed

lemma sweep_rounds:
  assumes "advances F step d"
  shows "\<exists>n. rounds F step n \<and>
      sweep F f step (- 90) [] = Some (map (\<lambda>k. f (loopVar F step (- 90) k)) [0..<n]) \<and>
      (\<forall>k<n. - 90 \<le> loopVar F step (- 90) k) \<and>
      (\<forall>i j. i < j \<and> j < n \<longrightarrow> loopVar F step (- 90) i + d \<le> loopVar F step (- 90) j)"
proof -
  from sweep_returns [OF assms, of "- 90" f "[]"]
  obtain n where sw: "sweep F f step (- 90) [] = Some (map (\<lambda>k. f (loopVar F step (- 90) k)) [0..<n])"
    and pos: "0 < n"
    and rng: "\<forall>k<n. - 90 \<le> loopVar F step (- 90) k \<and> loopVar F step (- 90) k \<le> 90 \<and>
                loopVar F step (- 90) k + d \<le> loopVar F step (- 90) (Suc k)"
    and out: "90 < loopVar F step (- 90) n"
    by auto
  from assms have d: "0 < d" by (simp add: advances_def)
  have grow: "loopVar F step (- 90) i + d \<le> loopVar F step (- 90) j" if "i < j" and "j < n" for i j
  proof -
    from rng have "\<forall>k<n. loopVar F step (- 90) k + d \<le> loopVar F step (- 90) (Suc k)"
      by simp
    from loopVar_grows [OF this, of j i] that
    have "loopVar F step (- 90) i + real (j - i) * d \<le> loopVar F step (- 90) j"
      by simp
    moreover have "1 \<le> real (j - i)"
      using that by simp
    then have "1 * d \<le> real (j - i) * d"
      using d by (simp only: mult_le_cancel_right_pos)
    ultimately show ?thesis by simp
  qed
  from pos rng out have "rounds F step n"
    by (simp add: rounds_def)
  with sw rng grow show ?thesis
    by (intro exI [of _ n]) simp
qed

lemma rounds_unique:
  assumes "rounds F step n" and "rounds F step m"
  shows "n = m"
proof (rule ccontr)
  assume "n \<noteq> m"
  then consider "n < m" | "m < n" by linarith
  then show False
  proof cases
    case 1
    with assms show False by (auto simp add: rounds_def)
  next
    case 2
    with assms show False by (auto simp add: rounds_def)
  qed
qed

lemma advances_exact: "0 < step \<Longrightarrow> advances exactOps step step"
  by (simp add: advances_def exactOps_def)

subsection \<open>Step 1, whose sums are exact\<close>

lemma loopVar_degrees:
  assumes "\<forall>i::int. - 90 \<le> i \<and> i \<le> 90 \<longrightarrow> add64 F (of_int i) 1 = of_int i + 1"
  shows "k \<le> 181 \<Longrightarrow> loopVar F 1 (- 90) k = - 90 + real k"
proof (induction k)
  case 0
  show ?case by (simp add: loopVar_0)
next
  case (Suc k)
  then have k: "k \<le> 180" and ih: "loopVar F 1 (- 90) k = - 90 + real k"
    by simp_all
  have "- 90 + real k = of_int (int k - 90)"
    by simp
  moreover have "add64 F (of_int (int k - 90)) 1 = of_int (int k - 90) + 1"
  proof -
    have "- 90 \<le> int k - 90 \<and> int k - 90 \<le> 90"
      using k by simp
    with assms show ?thesis
      by blast
  qed
  ultimately have "add64 F (- 90 + real k) 1 = - 90 + real k + 1"
    by (simp only:)
  then show ?case
    by (simp add: loopVar_Suc ih)
qed

lemma rounds_degrees:
  assumes "\<forall>i::int. - 90 \<le> i \<and> i \<le> 90 \<longrightarrow> add64 F (of_int i) 1 = of_int i + 1"
  shows "rounds F 1 181"
proof -
  note lv = loopVar_degrees [OF assms]
  have "loopVar F 1 (- 90) k \<le> 90" if "k < 181" for k
    using that lv [of k] by simp
  moreover have "90 < loopVar F 1 (- 90) 181"
    using lv [of 181] by simp
  ultimately show ?thesis
    by (simp add: rounds_def)
qed

lemma rounds_degrees_iff:
  assumes "\<forall>i::int. - 90 \<le> i \<and> i \<le> 90 \<longrightarrow> add64 F (of_int i) 1 = of_int i + 1"
  shows "rounds F 1 n \<longleftrightarrow> n = 181"
  using rounds_unique [OF _ rounds_degrees [OF assms]] rounds_degrees [OF assms] by blast

lemma degrees_exact: "\<forall>i::int. - 90 \<le> i \<and> i \<le> 90 \<longrightarrow> add64 exactOps (of_int i) 1 = of_int i + 1"
  by (simp add: exactOps_def)

lemma loopVar_exact: "loopVar exactOps step a k = a + real k * step"
  by (induction k) (simp_all add: loopVar_0 loopVar_Suc exactOps_def algebra_simps)

lemma sweep_degrees_from:
  assumes "\<forall>i::int. - 90 \<le> i \<and> i \<le> 90 \<longrightarrow> add64 F (of_int i) 1 = of_int i + 1"
  shows "k \<le> 181 \<Longrightarrow>
    sweep F f 1 (- 90 + real k) data = Some (data @ map (\<lambda>j. f (- 90 + real j)) [k..<181])"
proof (induction "181 - k" arbitrary: k data)
  case 0
  then have k: "k = 181" by simp
  show ?case
    unfolding k by (subst sweep.simps) simp
next
  case (Suc m)
  then have k: "k \<le> 180" and m: "m = 181 - Suc k" by simp_all
  have "- 90 \<le> int k - 90 \<and> int k - 90 \<le> 90"
    using k by simp
  with assms have "add64 F (of_int (int k - 90)) 1 = of_int (int k - 90) + 1"
    by blast
  moreover have "- 90 + real k = of_int (int k - 90)"
    by simp
  ultimately have "add64 F (- 90 + real k) 1 = of_int (int k - 90) + 1"
    by (simp only:)
  then have next_a: "add64 F (- 90 + real k) 1 = - 90 + real (Suc k)"
    by simp
  have "sweep F f 1 (- 90 + real k) data = sweep F f 1 (- 90 + real (Suc k)) (data @ [f (- 90 + real k)])"
    using k by (subst sweep.simps) (simp only: next_a, simp)
  also have "\<dots> = Some ((data @ [f (- 90 + real k)]) @ map (\<lambda>j. f (- 90 + real j)) [Suc k..<181])"
    by (rule Suc.hyps(1) [OF m]) (use k in simp)
  also have "(data @ [f (- 90 + real k)]) @ map (\<lambda>j. f (- 90 + real j)) [Suc k..<181] =
      data @ map (\<lambda>j. f (- 90 + real j)) [k..<181]"
    using k by (simp add: upt_conv_Cons)
  finally show ?case .
qed

lemma sweep_degrees:
  assumes "\<forall>i::int. - 90 \<le> i \<and> i \<le> 90 \<longrightarrow> add64 F (of_int i) 1 = of_int i + 1"
  shows "sweep F f 1 (- 90) [] = Some (map (\<lambda>j. f (- 90 + real j)) [0..<181])"
  using sweep_degrees_from [OF assms, of 0 f "[]"] by simp

section \<open>Normalisation\<close>

lemma foldl_max_ge_init:
  "m \<le> foldl (\<lambda>mx item. if intensity item > mx then intensity item else mx) m data"
proof (induction data arbitrary: m)
  case Nil
  show ?case by simp
next
  case (Cons d ds)
  have "m \<le> (if intensity d > m then intensity d else m)" by simp
  also have "\<dots> \<le> foldl (\<lambda>mx item. if intensity item > mx then intensity item else mx)
      (if intensity d > m then intensity d else m) ds"
    by (rule Cons.IH)
  finally show ?case by simp
qed

lemma foldl_max_ge:
  "d \<in> set data \<Longrightarrow>
   intensity d \<le> foldl (\<lambda>mx item. if intensity item > mx then intensity item else mx) m data"
proof (induction data arbitrary: m)
  case Nil
  then show ?case by simp
next
  case (Cons e es)
  show ?case
  proof (cases "d = e")
    case True
    have "intensity e \<le> (if intensity e > m then intensity e else m)" by simp
    also have "\<dots> \<le> foldl (\<lambda>mx item. if intensity item > mx then intensity item else mx)
        (if intensity e > m then intensity e else m) es"
      by (rule foldl_max_ge_init)
    finally show ?thesis using True by simp
  next
    case False
    with Cons.prems have "d \<in> set es" by simp
    then show ?thesis using Cons.IH by simp
  qed
qed

lemma foldl_max_in:
  "foldl (\<lambda>mx item. if intensity item > mx then intensity item else mx) m data = m \<or>
   foldl (\<lambda>mx item. if intensity item > mx then intensity item else mx) m data \<in> intensity ` set data"
proof (induction data arbitrary: m)
  case Nil
  show ?case by simp
next
  case (Cons e es)
  from Cons.IH [of "if intensity e > m then intensity e else m"]
  show ?case by (auto split: if_splits)
qed

lemma rawMax_ge: "d \<in> set data \<Longrightarrow> intensity d \<le> rawMax data"
  unfolding rawMax_def by (rule foldl_max_ge)

lemma rawMax_nonneg: "0 \<le> rawMax data"
  unfolding rawMax_def by (rule foldl_max_ge_init)

lemma rawMax_Max:
  assumes "data \<noteq> []" and "\<forall>d \<in> set data. 0 \<le> intensity d"
  shows "rawMax data = Max (intensity ` set data)"
proof -
  have mem: "rawMax data \<in> intensity ` set data"
  proof (cases "rawMax data = 0")
    case False
    then show ?thesis
      using foldl_max_in [of 0 data] by (simp add: rawMax_def)
  next
    case True
    from assms(1) obtain d where d: "d \<in> set data"
      by (cases data) auto
    with rawMax_ge [OF d] assms(2) True have "intensity d = 0"
      by fastforce
    with d True show ?thesis
      by (metis imageI)
  qed
  show ?thesis
  proof (rule Max_eqI [symmetric])
    show "finite (intensity ` set data)" by simp
    show "y \<le> rawMax data" if "y \<in> intensity ` set data" for y
      using that rawMax_ge by auto
    show "rawMax data \<in> intensity ` set data" by (rule mem)
  qed
qed

lemma sample_nonneg: "0 \<le> intensity (sample F activeModel ra lambda thetaInc step slopeFactor g a)"
  by (simp add: sample_def)

lemma sweep_data:
  assumes "advances F step d"
  shows "\<exists>data. sweep F (sample F activeModel ra lambda thetaInc step slopeFactor g) step (- 90) [] = Some data \<and>
    data \<noteq> [] \<and> (\<forall>x \<in> set data. 0 \<le> intensity x)"
proof -
  let ?f = "sample F activeModel ra lambda thetaInc step slopeFactor g"
  from sweep_rounds [OF assms, of ?f]
  obtain n where r: "rounds F step n"
    and sw: "sweep F ?f step (- 90) [] = Some (map (\<lambda>k. ?f (loopVar F step (- 90) k)) [0..<n])"
    by blast
  from r have "0 < n"
    by (simp add: rounds_def)
  then have "map (\<lambda>k. ?f (loopVar F step (- 90) k)) [0..<n] \<noteq> []"
    by simp
  moreover have "\<forall>x \<in> set (map (\<lambda>k. ?f (loopVar F step (- 90) k)) [0..<n]). 0 \<le> intensity x"
    by (auto simp add: sample_nonneg)
  ultimately show ?thesis
    using sw by blast
qed

lemma normalise_zero:
  assumes "rawMax data = 0" and "\<forall>d \<in> set data. 0 \<le> intensity d"
  shows "\<forall>d \<in> set (normalise reflectivity data). intensity d = 0"
proof -
  have "intensity d = 0" if "d \<in> set data" for d
    using rawMax_ge [OF that] assms that by fastforce
  then show ?thesis
    by (auto simp add: normalise_def Let_def)
qed

lemma normalise_peak:
  assumes "rawMax data \<noteq> 0" and "data \<noteq> []" and "\<forall>d \<in> set data. 0 \<le> intensity d"
  shows "(\<exists>d \<in> set (normalise reflectivity data). intensity d = reflectivity) \<and>
    (0 \<le> reflectivity \<longrightarrow> Max (intensity ` set (normalise reflectivity data)) = reflectivity)"
proof -
  let ?M = "rawMax data"
  let ?out = "normalise reflectivity data"
  have pos: "0 < ?M"
    using rawMax_nonneg [of data] assms(1) by simp
  have out: "intensity ` set ?out = (\<lambda>d. intensity d / ?M * reflectivity) ` set data"
    using assms(1) by (simp add: normalise_def Let_def image_image)
  from rawMax_Max [OF assms(2,3)] have "?M \<in> intensity ` set data"
    using Max_in [of "intensity ` set data"] assms(2) by simp
  then obtain p where p: "p \<in> set data" and pm: "intensity p = ?M"
    by auto
  have peak: "reflectivity \<in> intensity ` set ?out"
    unfolding out using p pm assms(1) by (auto simp add: image_iff intro!: bexI [of _ p])
  have le: "y \<le> reflectivity" if "y \<in> intensity ` set ?out" and r: "0 \<le> reflectivity" for y
  proof -
    from that(1) obtain d where d: "d \<in> set data" and y: "y = intensity d / ?M * reflectivity"
      unfolding out by auto
    have "intensity d / ?M \<le> 1"
      using rawMax_ge [OF d] pos by simp
    then have "intensity d / ?M * reflectivity \<le> 1 * reflectivity"
      using r by (rule mult_right_mono)
    then show ?thesis by (simp add: y)
  qed
  have "Max (intensity ` set ?out) = reflectivity" if "0 \<le> reflectivity"
    by (rule Max_eqI) (use that le peak in auto)
  with peak show ?thesis by auto
qed

text \<open>
  C1: a call whose loop advances returns (with exact sums: every call with \<open>step > 0\<close>). Let
  \<open>M\<close> be the maximum of the raw (clamped) intensities of the sweep, which
  \<^verbatim>\<open>rawMaxIntensity\<close> is. Every returned intensity is \<open>(raw / M) * reflectivity\<close>, with the
  divisor 1 when \<open>M = 0\<close>. If \<open>M = 0\<close> every returned intensity is 0; otherwise a returned
  sample has exactly the intensity \<open>reflectivity\<close>, and for \<open>reflectivity \<ge> 0\<close> (its range is
  0 to 1) this is the maximum of the returned intensities.
\<close>

theorem normalised_peak:
  assumes "advances F step d"
  shows "\<exists>data. sweep F (sample F (resolveModel modelType (gParam F ra lambda thetaInc)) ra lambda
                   thetaInc step slopeFactor (gParam F ra lambda thetaInc)) step (- 90) [] = Some data \<and>
    data \<noteq> [] \<and>
    rawMax data = Max (intensity ` set data) \<and>
    calculateScattering F ra lambda thetaInc modelType step reflectivity slopeFactor =
      Some (map (\<lambda>x. x\<lparr>intensity :=
              (intensity x / (if rawMax data = 0 then 1 else rawMax data)) * reflectivity\<rparr>) data) \<and>
    (rawMax data = 0 \<longrightarrow>
       (\<forall>x \<in> set (the (calculateScattering F ra lambda thetaInc modelType step reflectivity slopeFactor)).
          intensity x = 0)) \<and>
    (rawMax data \<noteq> 0 \<longrightarrow>
       (\<exists>x \<in> set (the (calculateScattering F ra lambda thetaInc modelType step reflectivity slopeFactor)).
          intensity x = reflectivity) \<and>
       (0 \<le> reflectivity \<longrightarrow>
          Max (intensity ` set (the (calculateScattering F ra lambda thetaInc modelType step
                 reflectivity slopeFactor))) = reflectivity))"
proof -
  let ?f = "sample F (resolveModel modelType (gParam F ra lambda thetaInc)) ra lambda thetaInc
              step slopeFactor (gParam F ra lambda thetaInc)"
  from sweep_data [OF assms] obtain data
    where sw: "sweep F ?f step (- 90) [] = Some data"
      and ne: "data \<noteq> []" and nn: "\<forall>x \<in> set data. 0 \<le> intensity x"
    by blast
  have cs: "calculateScattering F ra lambda thetaInc modelType step reflectivity slopeFactor =
      Some (normalise reflectivity data)"
    by (simp add: calculateScattering_def Let_def sw)
  have n: "normalise reflectivity data = map (\<lambda>x. x\<lparr>intensity :=
              (intensity x / (if rawMax data = 0 then 1 else rawMax data)) * reflectivity\<rparr>) data"
    by (simp add: normalise_def Let_def)
  have mx: "rawMax data = Max (intensity ` set data)"
    by (rule rawMax_Max [OF ne nn])
  have z: "rawMax data = 0 \<longrightarrow> (\<forall>x \<in> set (normalise reflectivity data). intensity x = 0)"
    using normalise_zero [OF _ nn] by blast
  have p: "rawMax data \<noteq> 0 \<longrightarrow>
       (\<exists>x \<in> set (normalise reflectivity data). intensity x = reflectivity) \<and>
       (0 \<le> reflectivity \<longrightarrow> Max (intensity ` set (normalise reflectivity data)) = reflectivity)"
    using normalise_peak [OF _ ne nn] by blast
  show ?thesis
    unfolding cs option.sel
    using sw ne mx n z p by (intro exI [of _ data]) simp
qed

lemma sweepAngles_single: "sweepAngles 200 (- 90) = [- 90]"
  by (simp add: sweepAngles_def sweepCount_def)

theorem normalised_peak_witness:
  "advances exactOps 200 200 \<and>
   calculateScattering exactOps 1 0.5 0 ''Beckmann'' 200 0.9 1 = Some [\<lparr>angle = - 90, intensity = 0\<rparr>] \<and>
   rawMax (the (sweep exactOps (sample exactOps ''Harvey-Shack'' 1 0.5 0 200 1 (gParam exactOps 1 0.5 0))
                  200 (- 90) [])) > 0 \<and>
   Max (intensity ` set (the (calculateScattering exactOps 1 0.5 0 ''Harvey-Shack'' 200 0.9 1))) = 0.9"
proof -
  have h: "(0::real) < 200" by simp
  have adv: "advances exactOps 200 200"
    by (rule advances_exact) simp
  let ?g = "gParam exactOps 1 0.5 0"
  let ?x = "sample exactOps ''Harvey-Shack'' 1 0.5 0 200 1 ?g (- 90)"
  have c: "cos (- 90 * pi / 180) = 0"
    by simp
  have sw: "sweep exactOps f 200 (- 90) [] = Some [f (- 90)]" for f :: "real \<Rightarrow> ScatteringData"
    by (simp add: sweep_Some [OF h] sweepAngles_single)
  have b: "calculateScattering exactOps 1 0.5 0 ''Beckmann'' 200 0.9 1 = Some [\<lparr>angle = - 90, intensity = 0\<rparr>]"
    using c by (simp add: calculateScattering_def sw resolveModel_def
        normalise_def rawMax_def sample_def sampleIntensity_def Let_def toFixed4_90 exactOps_sel)
  have "sampleIntensity exactOps ''Harvey-Shack'' 1 0.5 0 200 1 ?g (- 90) = exp (- ?g) * exp (- ((90 / 1.5) ^ 2))"
    using c by (simp add: sampleIntensity_def Let_def exactOps_sel)
  then have "0 < sampleIntensity exactOps ''Harvey-Shack'' 1 0.5 0 200 1 ?g (- 90)"
    by (simp only: mult_pos_pos exp_gt_zero)
  then have i: "0 < intensity ?x"
    by (simp add: sample_def)
  then have m: "0 < rawMax [?x]"
    by (simp add: rawMax_def)
  have r: "resolveModel ''Harvey-Shack'' ?g = ''Harvey-Shack''"
    by (simp add: resolveModel_def)
  from normalised_peak [OF adv, of "''Harvey-Shack''" 1 "0.5" 0 1 "0.9"]
  obtain data where
    "sweep exactOps (sample exactOps ''Harvey-Shack'' 1 0.5 0 200 1 ?g) 200 (- 90) [] = Some data"
    and p: "rawMax data \<noteq> 0 \<longrightarrow>
       (\<exists>x \<in> set (the (calculateScattering exactOps 1 0.5 0 ''Harvey-Shack'' 200 0.9 1)). intensity x = 0.9) \<and>
       ((0::real) \<le> 0.9 \<longrightarrow>
          Max (intensity ` set (the (calculateScattering exactOps 1 0.5 0 ''Harvey-Shack'' 200 0.9 1))) = 0.9)"
    unfolding r by blast
  then have data: "data = [?x]"
    by (simp add: sw)
  with m p have "Max (intensity ` set (the (calculateScattering exactOps 1 0.5 0 ''Harvey-Shack'' 200 0.9 1))) = 0.9"
    by simp
  moreover have "rawMax (the (sweep exactOps (sample exactOps ''Harvey-Shack'' 1 0.5 0 200 1 ?g) 200 (- 90) [])) > 0"
    using m by (simp add: sw)
  ultimately show ?thesis
    using adv b by blast
qed

section \<open>Model resolution and the three formulas\<close>

lemma gParam_nonneg: "0 \<le> gParam F ra lambda thetaInc"
  by (simp add: gParam_def Let_def)

lemma resolveModel_idem: "resolveModel (resolveModel modelType g) g = resolveModel modelType g"
  by (simp add: resolveModel_def)

lemma harveyShack_nonneg:
  fixes g d w c :: real
  shows "0 \<le> g \<Longrightarrow> 0 \<le> exp (- g) * exp (- ((d / w) ^ 2)) + 0.3 * (1 - exp (- g)) * c powr 1.5"
  by (intro add_nonneg_nonneg mult_nonneg_nonneg) simp_all

lemma normalise_Nil_iff: "normalise reflectivity data = [] \<longleftrightarrow> data = []"
  by (simp add: normalise_def Let_def)

lemma calculateScattering_rounds:
  assumes "advances F step d"
  shows "\<exists>n. rounds F step n \<and>
    calculateScattering F ra lambda thetaInc modelType step reflectivity slopeFactor =
      Some (normalise reflectivity
        (map (\<lambda>k. sample F (resolveModel modelType (gParam F ra lambda thetaInc)) ra lambda thetaInc
                     step slopeFactor (gParam F ra lambda thetaInc) (loopVar F step (- 90) k))
           [0..<n])) \<and>
    (\<forall>k<n. - 90 \<le> loopVar F step (- 90) k) \<and>
    (\<forall>i j. i < j \<and> j < n \<longrightarrow> loopVar F step (- 90) i + d \<le> loopVar F step (- 90) j)"
proof -
  let ?f = "sample F (resolveModel modelType (gParam F ra lambda thetaInc)) ra lambda thetaInc
              step slopeFactor (gParam F ra lambda thetaInc)"
  from sweep_rounds [OF assms, of ?f]
  obtain n where r: "rounds F step n"
    and sw: "sweep F ?f step (- 90) [] = Some (map (\<lambda>k. ?f (loopVar F step (- 90) k)) [0..<n])"
    and rest: "\<forall>k<n. - 90 \<le> loopVar F step (- 90) k"
      "\<forall>i j. i < j \<and> j < n \<longrightarrow> loopVar F step (- 90) i + d \<le> loopVar F step (- 90) j"
    by blast
  have "calculateScattering F ra lambda thetaInc modelType step reflectivity slopeFactor =
      Some (normalise reflectivity (map (\<lambda>k. ?f (loopVar F step (- 90) k)) [0..<n]))"
    by (simp add: calculateScattering_def Let_def sw)
  with r rest show ?thesis
    by (intro exI [of _ n]) simp
qed

text \<open>
  C2: \<open>g\<close> is the square of \<open>4 * pi * (1.25 * ra) * cos thetaRad / max 0.0001 lambda\<close>. With
  \<^verbatim>\<open>'Auto'\<close> the model is Rayleigh-Rice for \<open>g < 0.01\<close>, Beckmann for \<open>g > 15\<close> and
  Harvey-Shack otherwise, and any other tag is kept. The call uses the resolved model: when the loop
  advances, its result is the normalised list of the samples that the resolved model gives
  at the values of the loop variable. At \<open>ra = 0.0000005\<close>, wavelength \<open>0.5\<close> and incident
  angle 0 (where \<^verbatim>\<open>Math.cos(0)\<close> is 1) \<open>g\<close> is below \<open>0.01\<close>, Rayleigh-Rice is selected and the
  samples of the call are those of Rayleigh-Rice; at \<open>ra = 3.2\<close> \<open>g\<close> is above 15, Beckmann is
  selected and the samples are those of Beckmann.
\<close>

theorem auto_model_selection:
  "gParam F ra lambda thetaInc =
     ((4 * pi * (1.25 * ra) * cos64 F (thetaInc * pi / 180)) / max 0.0001 lambda) ^ 2 \<and>
   resolveModel ''Auto'' g =
     (if g < 0.01 then ''Rayleigh-Rice'' else if g > 15 then ''Beckmann'' else ''Harvey-Shack'') \<and>
   (modelType \<noteq> ''Auto'' \<longrightarrow> resolveModel modelType g = modelType) \<and>
   (advances F step d \<longrightarrow>
      (\<exists>n. rounds F step n \<and>
         calculateScattering F ra lambda thetaInc modelType step reflectivity slopeFactor =
           Some (normalise reflectivity
             (map (\<lambda>k. sample F (resolveModel modelType (gParam F ra lambda thetaInc)) ra lambda
                          thetaInc step slopeFactor (gParam F ra lambda thetaInc)
                          (loopVar F step (- 90) k))
                [0..<n])))) \<and>
   (cos64 F 0 = 1 \<longrightarrow>
      gParam F 0.0000005 0.5 0 < 0.01 \<and>
      resolveModel ''Auto'' (gParam F 0.0000005 0.5 0) = ''Rayleigh-Rice'' \<and>
      gParam F 3.2 0.5 0 > 15 \<and>
      resolveModel ''Auto'' (gParam F 3.2 0.5 0) = ''Beckmann'') \<and>
   (cos64 F 0 = 1 \<and> advances F step d \<longrightarrow>
      (\<exists>n. rounds F step n \<and>
         calculateScattering F 0.0000005 0.5 0 ''Auto'' step reflectivity slopeFactor =
           Some (normalise reflectivity
             (map (\<lambda>k. sample F ''Rayleigh-Rice'' 0.0000005 0.5 0 step slopeFactor
                          (gParam F 0.0000005 0.5 0) (loopVar F step (- 90) k))
                [0..<n]))) \<and>
      (\<exists>n. rounds F step n \<and>
         calculateScattering F 3.2 0.5 0 ''Auto'' step reflectivity slopeFactor =
           Some (normalise reflectivity
             (map (\<lambda>k. sample F ''Beckmann'' 3.2 0.5 0 step slopeFactor
                          (gParam F 3.2 0.5 0) (loopVar F step (- 90) k))
                [0..<n]))))"
proof -
  have g: "gParam F ra lambda thetaInc =
     ((4 * pi * (1.25 * ra) * cos64 F (thetaInc * pi / 180)) / max 0.0001 lambda) ^ 2"
    by (simp add: gParam_def Let_def mult.commute)
  have r: "resolveModel ''Auto'' g =
     (if g < 0.01 then ''Rayleigh-Rice'' else if g > 15 then ''Beckmann'' else ''Harvey-Shack'')"
    by (simp add: resolveModel_def)
  have n: "modelType \<noteq> ''Auto'' \<longrightarrow> resolveModel modelType g = modelType"
    by (simp add: resolveModel_def)
  have c: "advances F step d \<longrightarrow>
      (\<exists>n. rounds F step n \<and>
         calculateScattering F ra lambda thetaInc modelType step reflectivity slopeFactor =
           Some (normalise reflectivity
             (map (\<lambda>k. sample F (resolveModel modelType (gParam F ra lambda thetaInc)) ra lambda
                          thetaInc step slopeFactor (gParam F ra lambda thetaInc)
                          (loopVar F step (- 90) k))
                [0..<n])))"
    using calculateScattering_rounds [of F step d ra lambda thetaInc modelType reflectivity slopeFactor]
    by blast
  have bounds: "gParam F 0.0000005 0.5 0 < 0.01 \<and>
      resolveModel ''Auto'' (gParam F 0.0000005 0.5 0) = ''Rayleigh-Rice'' \<and>
      gParam F 3.2 0.5 0 > 15 \<and>
      resolveModel ''Auto'' (gParam F 3.2 0.5 0) = ''Beckmann''" if one: "cos64 F 0 = 1"
  proof -
    have small: "gParam F 0.0000005 0.5 0 = (pi / 200000) ^ 2"
      by (simp add: gParam_def Let_def power2_eq_square one)
    have "pi / 200000 < 1 / 10"
      using pi_less_4 by simp
    moreover have "0 \<le> pi / 200000" by simp
    ultimately have "(pi / 200000) ^ 2 < (1 / 10) ^ 2"
      by (rule power_strict_mono) simp
    then have s1: "gParam F 0.0000005 0.5 0 < 0.01"
      unfolding small by (simp add: power2_eq_square)
    have big: "gParam F 3.2 0.5 0 = (32 * pi) ^ 2"
      by (simp add: gParam_def Let_def power2_eq_square one)
    have "(4::real) < 32 * pi"
      using pi_ge_two by simp
    then have "(4::real) ^ 2 < (32 * pi) ^ 2"
      by (rule power_strict_mono) simp_all
    then have s2: "gParam F 3.2 0.5 0 > 15"
      unfolding big by simp
    have r1: "resolveModel ''Auto'' (gParam F 0.0000005 0.5 0) = ''Rayleigh-Rice''"
      using s1 by (simp add: resolveModel_def)
    have r2: "resolveModel ''Auto'' (gParam F 3.2 0.5 0) = ''Beckmann''"
      using s1 s2 by (simp add: resolveModel_def)
    from s1 r1 s2 r2 show ?thesis by simp
  qed
  have calls: "(\<exists>n. rounds F step n \<and>
         calculateScattering F 0.0000005 0.5 0 ''Auto'' step reflectivity slopeFactor =
           Some (normalise reflectivity
             (map (\<lambda>k. sample F ''Rayleigh-Rice'' 0.0000005 0.5 0 step slopeFactor
                          (gParam F 0.0000005 0.5 0) (loopVar F step (- 90) k))
                [0..<n]))) \<and>
      (\<exists>n. rounds F step n \<and>
         calculateScattering F 3.2 0.5 0 ''Auto'' step reflectivity slopeFactor =
           Some (normalise reflectivity
             (map (\<lambda>k. sample F ''Beckmann'' 3.2 0.5 0 step slopeFactor
                          (gParam F 3.2 0.5 0) (loopVar F step (- 90) k))
                [0..<n])))" if one: "cos64 F 0 = 1" and adv: "advances F step d"
  proof -
    from bounds [OF one]
    have r1: "resolveModel ''Auto'' (gParam F 0.0000005 0.5 0) = ''Rayleigh-Rice''"
      and r2: "resolveModel ''Auto'' (gParam F 3.2 0.5 0) = ''Beckmann''"
      by simp_all
    from calculateScattering_rounds [OF adv, of "0.0000005" "0.5" 0 "''Auto''" reflectivity slopeFactor]
      calculateScattering_rounds [OF adv, of "3.2" "0.5" 0 "''Auto''" reflectivity slopeFactor]
    show ?thesis
      unfolding r1 r2 by blast
  qed
  from g r n c bounds calls show ?thesis
    by blast
qed

theorem auto_model_selection_witness:
  "advances exactOps 1 1 \<and> cos64 exactOps 0 = 1 \<and>
   resolveModel ''Beckmann'' 1 = ''Beckmann'' \<and> resolveModel ''Auto'' 1 = ''Harvey-Shack'' \<and>
   gParam exactOps 3.2 0.5 0 > 15 \<and>
   (\<exists>n. rounds exactOps 1 n \<and>
      calculateScattering exactOps 3.2 0.5 0 ''Auto'' 1 1 1 =
        Some (normalise 1
          (map (\<lambda>k. sample exactOps ''Beckmann'' 3.2 0.5 0 1 1 (gParam exactOps 3.2 0.5 0)
                       (loopVar exactOps 1 (- 90) k))
             [0..<n])))"
proof -
  have adv: "advances exactOps 1 1"
    by (rule advances_exact) simp
  have one: "cos64 exactOps 0 = 1"
    by (simp add: exactOps_def)
  have tag: "''Beckmann'' \<noteq> ''Auto''"
    by simp
  note h = auto_model_selection [of exactOps "3.2" "0.5" 0 1 "''Beckmann''" 1 1 1 1]
  from h tag have a: "resolveModel ''Beckmann'' 1 = ''Beckmann''"
    by blast
  from h have b: "resolveModel ''Auto'' 1 = ''Harvey-Shack''"
    by simp
  from h one have c: "gParam exactOps 3.2 0.5 0 > 15"
    by blast
  from h one adv have d: "\<exists>n. rounds exactOps 1 n \<and>
      calculateScattering exactOps 3.2 0.5 0 ''Auto'' 1 1 1 =
        Some (normalise 1
          (map (\<lambda>k. sample exactOps ''Beckmann'' 3.2 0.5 0 1 1 (gParam exactOps 3.2 0.5 0)
                       (loopVar exactOps 1 (- 90) k))
             [0..<n]))"
    by blast
  from adv one a b c d show ?thesis
    by blast
qed

lemma exp_minus_79: "1 / 3 ^ 79 \<le> exp (- 79 :: real)"
proof -
  have "exp (79 :: real) = exp (of_nat 79 * 1)"
    by simp
  also have "\<dots> = exp 1 ^ 79"
    by (rule exp_of_nat_mult)
  also have "\<dots> \<le> 3 ^ 79"
    by (rule power_mono) (simp_all add: exp_le)
  finally have "exp (79 :: real) \<le> 3 ^ 79" .
  then have "1 / 3 ^ 79 \<le> 1 / exp (79 :: real)"
    by (intro divide_left_mono) simp_all
  then show ?thesis
    by (simp add: exp_minus inverse_eq_divide)
qed

lemma beckmann_grazing_raw:
  assumes pos: "0 < cos64 F ((90 * pi) / 180)"
    and small: "cos64 F ((90 * pi) / 180) \<le> 1 / 10 ^ 16"
    and tan: "\<bar>tan64 F ((90 * pi) / 180 - (30 * pi) / 180)\<bar> \<le> 2"
  shows "intensity (sample F ''Beckmann'' 0.8 0.5 30 step 1 g 90) =
      (1 / (pi * 0.16 ^ 2 * (cos64 F ((90 * pi) / 180)) ^ 4)) *
      exp (- ((tan64 F ((90 * pi) / 180 - (30 * pi) / 180)) ^ 2) / (2 * 0.16 ^ 2))"
    and "10 ^ 26 \<le> intensity (sample F ''Beckmann'' 0.8 0.5 30 step 1 g 90)"
proof -
  let ?c = "cos64 F ((90 * pi) / 180)"
  let ?t = "tan64 F ((90 * pi) / 180 - (30 * pi) / 180)"
  let ?A = "1 / (pi * 0.16 ^ 2 * ?c ^ 4)"
  let ?E = "exp (- (?t ^ 2) / (2 * 0.16 ^ 2))"
  have raw: "sampleIntensity F ''Beckmann'' 0.8 0.5 30 step 1 g 90 = ?A * ?E"
    using pos by (simp add: sampleIntensity_def Let_def power2_eq_square mult.assoc)
  have den: "0 < pi * 0.16 ^ 2 * ?c ^ 4"
    using pos by simp
  have "?c ^ 4 \<le> (1 / 10 ^ 16) ^ 4"
    using pos small by (intro power_mono) simp_all
  then have "pi * 0.16 ^ 2 * ?c ^ 4 \<le> 4 * 0.16 ^ 2 * (1 / 10 ^ 16) ^ 4"
    using pi_less_4 by (intro mult_mono) simp_all
  then have "1 / (4 * 0.16 ^ 2 * (1 / 10 ^ 16) ^ 4) \<le> ?A"
    using den by (intro divide_left_mono) simp_all
  moreover have "(10::real) ^ 64 \<le> 1 / (4 * 0.16 ^ 2 * (1 / 10 ^ 16) ^ 4)"
    by (simp add: power_divide)
  ultimately have A: "10 ^ 64 \<le> ?A"
    by (rule order_trans [rotated])
  have "?t ^ 2 \<le> 2 ^ 2"
    using tan by (simp only: abs_le_square_iff [symmetric] abs_numeral)
  then have "?t ^ 2 / (2 * 0.16 ^ 2) \<le> 2 ^ 2 / (2 * 0.16 ^ 2)"
    by (intro divide_right_mono) simp_all
  also have "(2::real) ^ 2 / (2 * 0.16 ^ 2) \<le> 79"
    by (simp add: power2_eq_square)
  finally have "?t ^ 2 / (2 * 0.16 ^ 2) \<le> 79" .
  then have "- 79 \<le> - (?t ^ 2) / (2 * 0.16 ^ 2)"
    by (simp only: minus_divide_left [symmetric] neg_le_iff_le)
  then have "exp (- 79) \<le> ?E"
    by simp
  with exp_minus_79 have E: "1 / 3 ^ 79 \<le> ?E"
    by linarith
  have "(10::real) ^ 64 * (1 / 3 ^ 79) \<le> ?A * ?E"
    using A E by (intro mult_mono) simp_all
  moreover have "(10::real) ^ 26 \<le> 10 ^ 64 * (1 / 3 ^ 79)"
  proof -
    have "(10::real) ^ 26 \<le> 10 ^ 64 / 3 ^ 79"
      by (simp add: pos_le_divide_eq)
    then show ?thesis by simp
  qed
  ultimately have big: "10 ^ 26 \<le> ?A * ?E"
    by linarith
  have "(0::real) \<le> 10 ^ 26"
    by simp
  from this big have "0 \<le> ?A * ?E"
    by (rule order_trans)
  then have "max 0 (?A * ?E) = ?A * ?E"
    by (rule max_absorb2)
  then show eq: "intensity (sample F ''Beckmann'' 0.8 0.5 30 step 1 g 90) = ?A * ?E"
    unfolding sample_def raw by (simp only: ScatteringData.simps)
  from big show "10 ^ 26 \<le> intensity (sample F ''Beckmann'' 0.8 0.5 30 step 1 g 90)"
    by (simp only: eq)
qed

lemma cos_right_angle: "cos ((90 * pi) / 180) = 0"
proof -
  have "(90 * pi) / 180 = pi / 2"
    by simp
  then show ?thesis
    by (simp only: cos_pi_half)
qed

lemma tan_sixty: "\<bar>tan ((90 * pi) / 180 - (30 * pi) / 180)\<bar> \<le> 2"
proof -
  have "(90 * pi) / 180 - (30 * pi) / 180 = pi / 3"
    by simp
  then have "tan ((90 * pi) / 180 - (30 * pi) / 180) = sqrt 3"
    by (simp only: tan_60)
  moreover have "sqrt 3 \<le> 2"
    by (rule real_le_lsqrt) simp_all
  moreover have "0 \<le> sqrt 3"
    by simp
  ultimately show ?thesis
    by simp
qed

text \<open>
  C3 fails in the program at the ends of the sweep: \<^verbatim>\<open>Math.cos(90 * Math.PI / 180)\<close> is not 0
  but a small positive number (about \<open>6.1 / 10 ^ 17\<close>), so the test \<^verbatim>\<open>cosA > 0\<close> lets the
  grazing angle through. For every \<open>F\<close> whose cosine at the argument of 90 degrees is
  positive and at most \<open>1 / 10 ^ 16\<close>, whose tangent at the argument of 60 degrees is at most
  2 in size and whose sums on the degree grid are exact, the call with \<open>ra = 0.8\<close>, wavelength
  \<open>0.5\<close>, incident angle 30, model \<^verbatim>\<open>'Beckmann'\<close>, \<open>step = 1\<close> and \<open>slopeFactor = 1\<close> has 181
  raw samples; the last one, at angle 90, has the value of the Beckmann formula and not 0.
  This value is at least \<open>10 ^ 26\<close>, and so is the maximum by which the distribution is
  divided.
\<close>

theorem beckmann_grazing_sample:
  assumes pos: "0 < cos64 F ((90 * pi) / 180)"
    and small: "cos64 F ((90 * pi) / 180) \<le> 1 / 10 ^ 16"
    and tan: "\<bar>tan64 F ((90 * pi) / 180 - (30 * pi) / 180)\<bar> \<le> 2"
    and sums: "\<forall>i::int. - 90 \<le> i \<and> i \<le> 90 \<longrightarrow> add64 F (of_int i) 1 = of_int i + 1"
  shows "\<exists>data. sweep F (sample F (resolveModel ''Beckmann'' (gParam F 0.8 0.5 30)) 0.8 0.5 30 1 1
                         (gParam F 0.8 0.5 30)) 1 (- 90) [] = Some data \<and>
      length data = 181 \<and>
      angle (data ! 180) = 90 \<and>
      intensity (data ! 180) =
        (1 / (pi * 0.16 ^ 2 * (cos64 F ((90 * pi) / 180)) ^ 4)) *
        exp (- ((tan64 F ((90 * pi) / 180 - (30 * pi) / 180)) ^ 2) / (2 * 0.16 ^ 2)) \<and>
      10 ^ 26 \<le> intensity (data ! 180) \<and>
      10 ^ 26 \<le> rawMax data \<and>
      calculateScattering F 0.8 0.5 30 ''Beckmann'' 1 reflectivity 1 =
        Some (map (\<lambda>x. x\<lparr>intensity := (intensity x / rawMax data) * reflectivity\<rparr>) data)"
proof -
  let ?g = "gParam F 0.8 0.5 30"
  let ?f = "sample F ''Beckmann'' 0.8 0.5 30 1 1 ?g"
  define data where "data = map (\<lambda>j. ?f (- 90 + real j)) [0..<181]"
  have r: "resolveModel ''Beckmann'' ?g = ''Beckmann''"
    by (simp add: resolveModel_def)
  have sw: "sweep F ?f 1 (- 90) [] = Some data"
    unfolding data_def by (rule sweep_degrees [OF sums])
  have len: "length data = 181"
    by (simp add: data_def)
  have last: "data ! 180 = ?f 90"
    by (simp add: data_def)
  have ang: "angle (data ! 180) = 90"
    unfolding last by (simp add: sample_def toFixed4_90)
  note raw = beckmann_grazing_raw [OF pos small tan, of 1 ?g]
  have "data ! 180 \<in> set data"
    by (rule nth_mem) (simp add: len)
  then have "intensity (data ! 180) \<le> rawMax data"
    by (rule rawMax_ge)
  with raw(2) have big: "10 ^ 26 \<le> rawMax data"
    unfolding last by (rule order_trans)
  have "(0::real) < 10 ^ 26"
    by simp
  with big have nz: "rawMax data \<noteq> 0"
    by linarith
  have "calculateScattering F 0.8 0.5 30 ''Beckmann'' 1 reflectivity 1 = Some (normalise reflectivity data)"
    unfolding calculateScattering_def Let_def r sw by (simp only: option.case)
  then have cs: "calculateScattering F 0.8 0.5 30 ''Beckmann'' 1 reflectivity 1 =
        Some (map (\<lambda>x. x\<lparr>intensity := (intensity x / rawMax data) * reflectivity\<rparr>) data)"
    using nz by (simp add: normalise_def Let_def)
  from sw len ang raw big cs show ?thesis
    unfolding r last [symmetric] by (intro exI [of _ data]) (simp only: simp_thms)
qed

theorem beckmann_grazing_sample_witness:
  "0 < cos64 \<lparr>cos64 = \<lambda>x. max (cos x) (6123233995736766 / 10 ^ 32), tan64 = tan, add64 = (+)\<rparr>
         ((90 * pi) / 180) \<and>
   cos64 \<lparr>cos64 = \<lambda>x. max (cos x) (6123233995736766 / 10 ^ 32), tan64 = tan, add64 = (+)\<rparr>
         ((90 * pi) / 180) \<le> 1 / 10 ^ 16 \<and>
   \<bar>tan64 \<lparr>cos64 = \<lambda>x. max (cos x) (6123233995736766 / 10 ^ 32), tan64 = tan, add64 = (+)\<rparr>
         ((90 * pi) / 180 - (30 * pi) / 180)\<bar> \<le> 2 \<and>
   (\<exists>data. calculateScattering
               \<lparr>cos64 = \<lambda>x. max (cos x) (6123233995736766 / 10 ^ 32), tan64 = tan, add64 = (+)\<rparr>
               0.8 0.5 30 ''Beckmann'' 1 1 1 =
             Some (map (\<lambda>x. x\<lparr>intensity := (intensity x / rawMax data) * 1\<rparr>) data) \<and>
           length data = 181 \<and> angle (data ! 180) = 90 \<and> 10 ^ 26 \<le> intensity (data ! 180) \<and>
           10 ^ 26 \<le> rawMax data)"
proof -
  let ?F = "\<lparr>cos64 = \<lambda>x::real. max (cos x) (6123233995736766 / 10 ^ 32), tan64 = tan, add64 = (+)\<rparr>"
  have v: "cos64 ?F ((90 * pi) / 180) = 6123233995736766 / 10 ^ 32"
    by (simp only: float_ops.simps cos_right_angle) simp
  have a: "0 < cos64 ?F ((90 * pi) / 180)"
    unfolding v by simp
  have b: "cos64 ?F ((90 * pi) / 180) \<le> 1 / 10 ^ 16"
    unfolding v by simp
  have c: "\<bar>tan64 ?F ((90 * pi) / 180 - (30 * pi) / 180)\<bar> \<le> 2"
    using tan_sixty by (simp only: float_ops.simps)
  have s: "\<forall>i::int. - 90 \<le> i \<and> i \<le> 90 \<longrightarrow> add64 ?F (of_int i) 1 = of_int i + 1"
    by simp
  from beckmann_grazing_sample [OF a b c s, of 1]
  obtain data where "calculateScattering ?F 0.8 0.5 30 ''Beckmann'' 1 1 1 =
             Some (map (\<lambda>x. x\<lparr>intensity := (intensity x / rawMax data) * 1\<rparr>) data)"
    and "length data = 181" and "angle (data ! 180) = 90" and "10 ^ 26 \<le> intensity (data ! 180)"
    and "10 ^ 26 \<le> rawMax data"
    by blast
  with a b c show ?thesis
    by blast
qed

lemma harveyShack_sample:
  assumes "modelType \<noteq> ''Auto''" and "modelType \<noteq> ''Rayleigh-Rice''" and "modelType \<noteq> ''Beckmann''"
  shows "sampleIntensity F modelType ra lambda thetaInc step slopeFactor g a =
      exp (- g) * exp (- ((\<bar>a - thetaInc\<bar> / (1.5 * slopeFactor)) ^ 2))
      + 0.3 * (1 - exp (- g)) * (cos64 F ((a * pi) / 180)) powr 1.5"
    and "sample F modelType ra lambda thetaInc step slopeFactor (gParam F ra lambda thetaInc) a =
      \<lparr>angle = toFixed4 a,
       intensity =
         exp (- gParam F ra lambda thetaInc) * exp (- ((\<bar>a - thetaInc\<bar> / (1.5 * slopeFactor)) ^ 2))
         + 0.3 * (1 - exp (- gParam F ra lambda thetaInc)) * (cos64 F ((a * pi) / 180)) powr 1.5\<rparr>"
proof -
  show s: "sampleIntensity F modelType ra lambda thetaInc step slopeFactor g a =
      exp (- g) * exp (- ((\<bar>a - thetaInc\<bar> / (1.5 * slopeFactor)) ^ 2))
      + 0.3 * (1 - exp (- g)) * (cos64 F ((a * pi) / 180)) powr 1.5" for g
    using assms by (simp add: sampleIntensity_def Let_def)
  have "0 \<le> sampleIntensity F modelType ra lambda thetaInc step slopeFactor (gParam F ra lambda thetaInc) a"
    unfolding s by (rule harveyShack_nonneg [OF gParam_nonneg])
  then have "max 0 (sampleIntensity F modelType ra lambda thetaInc step slopeFactor
      (gParam F ra lambda thetaInc) a) =
    sampleIntensity F modelType ra lambda thetaInc step slopeFactor (gParam F ra lambda thetaInc) a"
    by (rule max_absorb2)
  then show "sample F modelType ra lambda thetaInc step slopeFactor (gParam F ra lambda thetaInc) a =
      \<lparr>angle = toFixed4 a,
       intensity =
         exp (- gParam F ra lambda thetaInc) * exp (- ((\<bar>a - thetaInc\<bar> / (1.5 * slopeFactor)) ^ 2))
         + 0.3 * (1 - exp (- gParam F ra lambda thetaInc)) * (cos64 F ((a * pi) / 180)) powr 1.5\<rparr>"
    unfolding sample_def by (simp only: s)
qed

text \<open>
  C10: a tag other than \<^verbatim>\<open>'Auto'\<close>, \<^verbatim>\<open>'Rayleigh-Rice'\<close> and \<^verbatim>\<open>'Beckmann'\<close> is kept by the
  resolution and falls to the last branch of the dispatch. The raw intensity is the
  Harvey-Shack formula (stated where the divisor \<open>slopeFactor\<close> is not 0 and the cosine is
  not negative, as it is on the sweep), the clamp leaves it, and the call equals the call
  with \<^verbatim>\<open>'Harvey-Shack'\<close>. When the loop advances, the result of the call is the normalised
  list of the records that carry this formula at every value of the loop variable.
\<close>

theorem harvey_shack_fallback:
  assumes "modelType \<noteq> ''Auto''" and "modelType \<noteq> ''Rayleigh-Rice''" and "modelType \<noteq> ''Beckmann''"
  shows "resolveModel modelType g = modelType \<and>
    (slopeFactor \<noteq> 0 \<and> 0 \<le> cos64 F ((a * pi) / 180) \<longrightarrow>
       sampleIntensity F modelType ra lambda thetaInc step slopeFactor g a =
         exp (- g) * exp (- ((\<bar>a - thetaInc\<bar> / (1.5 * slopeFactor)) ^ 2))
         + 0.3 * (1 - exp (- g)) * (cos64 F ((a * pi) / 180)) powr 1.5 \<and>
       intensity (sample F modelType ra lambda thetaInc step slopeFactor (gParam F ra lambda thetaInc) a) =
         exp (- gParam F ra lambda thetaInc) * exp (- ((\<bar>a - thetaInc\<bar> / (1.5 * slopeFactor)) ^ 2))
         + 0.3 * (1 - exp (- gParam F ra lambda thetaInc)) * (cos64 F ((a * pi) / 180)) powr 1.5) \<and>
    calculateScattering F ra lambda thetaInc modelType step reflectivity slopeFactor =
      calculateScattering F ra lambda thetaInc ''Harvey-Shack'' step reflectivity slopeFactor \<and>
    (advances F step d \<and> slopeFactor \<noteq> 0 \<and>
     (\<forall>v. - 90 \<le> v \<and> v \<le> 90 \<longrightarrow> 0 \<le> cos64 F ((v * pi) / 180)) \<longrightarrow>
       (\<exists>n. rounds F step n \<and>
          calculateScattering F ra lambda thetaInc modelType step reflectivity slopeFactor =
            Some (normalise reflectivity
              (map (\<lambda>k. \<lparr>angle = toFixed4 (loopVar F step (- 90) k),
                          intensity =
                            exp (- gParam F ra lambda thetaInc) *
                            exp (- ((\<bar>loopVar F step (- 90) k - thetaInc\<bar> / (1.5 * slopeFactor)) ^ 2))
                            + 0.3 * (1 - exp (- gParam F ra lambda thetaInc)) *
                              (cos64 F ((loopVar F step (- 90) k * pi) / 180)) powr 1.5\<rparr>)
                 [0..<n]))))"
proof -
  have r: "resolveModel modelType g' = modelType" for g'
    using assms by (simp add: resolveModel_def)
  note s = harveyShack_sample [OF assms]
  have i: "intensity (sample F modelType ra lambda thetaInc step slopeFactor (gParam F ra lambda thetaInc) a) =
         exp (- gParam F ra lambda thetaInc) * exp (- ((\<bar>a - thetaInc\<bar> / (1.5 * slopeFactor)) ^ 2))
         + 0.3 * (1 - exp (- gParam F ra lambda thetaInc)) * (cos64 F ((a * pi) / 180)) powr 1.5"
    by (simp only: s(2) ScatteringData.simps)
  have hs: "sampleIntensity F ''Harvey-Shack'' ra lambda thetaInc step slopeFactor g' a' =
      sampleIntensity F modelType ra lambda thetaInc step slopeFactor g' a'" for g' a'
    using assms by (simp add: sampleIntensity_def Let_def)
  have "sample F modelType ra lambda thetaInc step slopeFactor g' =
        sample F ''Harvey-Shack'' ra lambda thetaInc step slopeFactor g'" for g'
    by (rule ext) (simp add: sample_def hs)
  then have c: "calculateScattering F ra lambda thetaInc modelType step reflectivity slopeFactor =
      calculateScattering F ra lambda thetaInc ''Harvey-Shack'' step reflectivity slopeFactor"
    by (simp add: calculateScattering_def Let_def r) (simp add: resolveModel_def)
  have l: "\<exists>n. rounds F step n \<and>
          calculateScattering F ra lambda thetaInc modelType step reflectivity slopeFactor =
            Some (normalise reflectivity
              (map (\<lambda>k. \<lparr>angle = toFixed4 (loopVar F step (- 90) k),
                          intensity =
                            exp (- gParam F ra lambda thetaInc) *
                            exp (- ((\<bar>loopVar F step (- 90) k - thetaInc\<bar> / (1.5 * slopeFactor)) ^ 2))
                            + 0.3 * (1 - exp (- gParam F ra lambda thetaInc)) *
                              (cos64 F ((loopVar F step (- 90) k * pi) / 180)) powr 1.5\<rparr>)
                 [0..<n]))" if "advances F step d"
    using calculateScattering_rounds [OF that, of ra lambda thetaInc modelType reflectivity slopeFactor]
    unfolding r s(2) by blast
  from r s(1) i c l show ?thesis
    by blast
qed

theorem harvey_shack_fallback_witness:
  "''Lambert'' \<noteq> ''Auto'' \<and> ''Lambert'' \<noteq> ''Rayleigh-Rice'' \<and> ''Lambert'' \<noteq> ''Beckmann'' \<and>
   resolveModel ''Lambert'' 0 = ''Lambert'' \<and>
   (1::real) \<noteq> 0 \<and> 0 \<le> cos64 exactOps ((0 * pi) / 180) \<and>
   sampleIntensity exactOps ''Lambert'' 1 1 0 1 1 0 0 = 1 \<and>
   advances exactOps 1 1 \<and>
   (\<exists>n. rounds exactOps 1 n \<and>
      calculateScattering exactOps 1 1 0 ''Lambert'' 1 1 1 =
        Some (normalise 1
          (map (\<lambda>k. \<lparr>angle = toFixed4 (loopVar exactOps 1 (- 90) k),
                      intensity =
                        exp (- gParam exactOps 1 1 0) *
                        exp (- ((\<bar>loopVar exactOps 1 (- 90) k - 0\<bar> / (1.5 * 1)) ^ 2))
                        + 0.3 * (1 - exp (- gParam exactOps 1 1 0)) *
                          (cos64 exactOps ((loopVar exactOps 1 (- 90) k * pi) / 180)) powr 1.5\<rparr>)
             [0..<n])))"
proof -
  have t: "''Lambert'' \<noteq> ''Auto''" "''Lambert'' \<noteq> ''Rayleigh-Rice''" "''Lambert'' \<noteq> ''Beckmann''"
    by simp_all
  have sf: "(1::real) \<noteq> 0"
    by simp
  have c0: "0 \<le> cos64 exactOps ((0 * pi) / 180)"
    by (simp add: exactOps_def)
  have adv: "advances exactOps 1 1"
    by (rule advances_exact) simp
  have cs: "\<forall>v. - 90 \<le> v \<and> v \<le> 90 \<longrightarrow> 0 \<le> cos64 exactOps ((v * pi) / 180)"
  proof (intro allI impI)
    fix v :: real
    assume v: "- 90 \<le> v \<and> v \<le> 90"
    have "pi * (- 90) \<le> pi * v" and "pi * v \<le> pi * 90"
      using v by (simp_all only: mult_le_cancel_left_pos pi_gt_zero)
    then have "- (pi / 2) \<le> (v * pi) / 180" and "(v * pi) / 180 \<le> pi / 2"
      by (simp_all add: mult.commute)
    then have "0 \<le> cos ((v * pi) / 180)"
      by (rule cos_ge_zero)
    then show "0 \<le> cos64 exactOps ((v * pi) / 180)"
      by (simp add: exactOps_def)
  qed
  note h = harvey_shack_fallback [OF t, of 0 1 exactOps 0 1 1 0 1 1 1]
  from h have a: "resolveModel ''Lambert'' 0 = ''Lambert''"
    by (rule conjunct1)
  from h sf c0 have "sampleIntensity exactOps ''Lambert'' 1 1 0 1 1 0 0 =
         exp (- 0) * exp (- ((\<bar>0 - 0\<bar> / (1.5 * 1)) ^ 2))
         + 0.3 * (1 - exp (- 0)) * (cos64 exactOps ((0 * pi) / 180)) powr 1.5"
    by blast
  then have b: "sampleIntensity exactOps ''Lambert'' 1 1 0 1 1 0 0 = 1"
    by simp
  from h adv sf cs have c: "\<exists>n. rounds exactOps 1 n \<and>
      calculateScattering exactOps 1 1 0 ''Lambert'' 1 1 1 =
        Some (normalise 1
          (map (\<lambda>k. \<lparr>angle = toFixed4 (loopVar exactOps 1 (- 90) k),
                      intensity =
                        exp (- gParam exactOps 1 1 0) *
                        exp (- ((\<bar>loopVar exactOps 1 (- 90) k - 0\<bar> / (1.5 * 1)) ^ 2))
                        + 0.3 * (1 - exp (- gParam exactOps 1 1 0)) *
                          (cos64 exactOps ((loopVar exactOps 1 (- 90) k * pi) / 180)) powr 1.5\<rparr>)
             [0..<n]))"
    by blast
  from t a sf c0 b adv c show ?thesis
    by blast
qed

section \<open>The angles of the distribution\<close>

lemma angle_normalise: "map angle (normalise reflectivity data) = map angle data"
  by (simp add: normalise_def Let_def comp_def)

lemma length_normalise: "length (normalise reflectivity data) = length data"
  by (simp add: normalise_def Let_def)

lemma angle_samples:
  "map angle (map (\<lambda>k. sample F activeModel ra lambda thetaInc step slopeFactor g (v k)) ks) =
     map (\<lambda>k. toFixed4 (v k)) ks"
  by (simp add: sample_def comp_def)

lemma integer_angles: "map (\<lambda>j. toFixed4 (- 90 + real j)) [0..<181] = map of_int [- 90..90]"
proof (rule nth_equalityI)
  have "length [- 90..90::int] = 181"
    by (simp only: length_upto)
  then show "length (map (\<lambda>j. toFixed4 (- 90 + real j)) [0..<181]) = length (map real_of_int [- 90..90])"
    by (simp only: length_map length_upt)
next
  fix i
  assume "i < length (map (\<lambda>j. toFixed4 (- 90 + real j)) [0..<181])"
  then have i: "i < 181" by (simp only: length_map length_upt minus_nat.diff_0)
  have r: "[- 90..90] ! i = - 90 + int i"
    by (rule nth_upto) (use i in linarith)
  have "i < length [- 90..90::int]"
    using i by (simp only: length_upto)
  then have "map real_of_int [- 90..90] ! i = of_int (- 90 + int i)"
    by (simp only: nth_map r)
  moreover have "map (\<lambda>j. toFixed4 (- 90 + real j)) [0..<181] ! i = of_int (- 90 + int i)"
  proof -
    have "toFixed4 (real i - 90) = real i - 90"
      using toFixed4_of_int [of "int i - 90"] by simp
    then show ?thesis
      using i by simp
  qed
  ultimately show "map (\<lambda>j. toFixed4 (- 90 + real j)) [0..<181] ! i = map real_of_int [- 90..90] ! i"
    by simp
qed


lemma calculateScattering_degrees:
  assumes "\<forall>i::int. - 90 \<le> i \<and> i \<le> 90 \<longrightarrow> add64 F (of_int i) 1 = of_int i + 1"
  shows "calculateScattering F ra lambda thetaInc modelType 1 reflectivity slopeFactor =
      Some (normalise reflectivity
        (map (\<lambda>j. sample F (resolveModel modelType (gParam F ra lambda thetaInc)) ra lambda thetaInc
                     1 slopeFactor (gParam F ra lambda thetaInc) (- 90 + real j))
           [0..<181]))"
  unfolding calculateScattering_def Let_def sweep_degrees [OF assms] by (simp only: option.case)






section \<open>The Harvey-Shack scenario at normal incidence\<close>

lemma hsProfile_sample:
  assumes "modelType \<noteq> ''Auto''" and "modelType \<noteq> ''Rayleigh-Rice''" and "modelType \<noteq> ''Beckmann''"
  shows "intensity (sample exactOps modelType ra lambda 0 step slopeFactor (gParam exactOps ra lambda 0) a) =
    hsProfile (gParam exactOps ra lambda 0) (1.5 * slopeFactor) \<bar>a\<bar>"
proof -
  have c: "cos ((\<bar>a\<bar> * pi) / 180) = cos ((a * pi) / 180)"
  proof (cases "0 \<le> a")
    case True
    then show ?thesis by simp
  next
    case False
    then have "(\<bar>a\<bar> * pi) / 180 = - ((a * pi) / 180)" by simp
    then show ?thesis by (simp only: cos_minus)
  qed
  have s: "sampleIntensity exactOps modelType ra lambda 0 step slopeFactor (gParam exactOps ra lambda 0) a =
      hsProfile (gParam exactOps ra lambda 0) (1.5 * slopeFactor) \<bar>a\<bar>"
    using assms unfolding hsProfile_def c by (simp add: sampleIntensity_def Let_def exactOps_sel)
  have "0 \<le> hsProfile (gParam exactOps ra lambda 0) (1.5 * slopeFactor) \<bar>a\<bar>"
    unfolding hsProfile_def by (rule harveyShack_nonneg [OF gParam_nonneg])
  then show ?thesis
    by (simp add: sample_def s)
qed

lemma hsProfile_less:
  assumes g: "0 \<le> g" and w: "0 < w" and a: "0 \<le> a" and ab: "a < b" and b: "b \<le> 90"
  shows "hsProfile g w b < hsProfile g w a"
proof -
  have "a / w < b / w"
    using ab w by (simp add: divide_strict_right_mono)
  moreover have "0 \<le> a / w"
    using a w by simp
  ultimately have "(a / w) ^ 2 < (b / w) ^ 2"
    by (rule power_strict_mono) simp
  then have "exp (- ((b / w) ^ 2)) < exp (- ((a / w) ^ 2))"
    by simp
  then have first: "exp (- g) * exp (- ((b / w) ^ 2)) < exp (- g) * exp (- ((a / w) ^ 2))"
    by simp
  have half: "(b * pi) / 180 \<le> pi / 2"
    using b by simp
  have "0 \<le> (b * pi) / 180"
    using a ab by simp
  then have low: "- (pi / 2) \<le> (b * pi) / 180"
    using pi_ge_zero by linarith
  have bge: "0 \<le> cos ((b * pi) / 180)"
    using low half by (rule cos_ge_zero)
  have bpi: "(b * pi) / 180 \<le> pi"
    using half by simp
  have "cos ((b * pi) / 180) \<le> cos ((a * pi) / 180)"
    by (rule cos_monotone_0_pi_le) (use a ab bpi in simp_all)
  with bge have "cos ((b * pi) / 180) powr 1.5 \<le> cos ((a * pi) / 180) powr 1.5"
    by (intro powr_mono2) simp_all
  moreover have "0 \<le> 0.3 * (1 - exp (- g))"
    using g by simp
  ultimately have second: "0.3 * (1 - exp (- g)) * cos ((b * pi) / 180) powr 1.5
      \<le> 0.3 * (1 - exp (- g)) * cos ((a * pi) / 180) powr 1.5"
    by (rule mult_left_mono)
  from first second show ?thesis
    unfolding hsProfile_def by (rule add_less_le_mono)
qed

lemma hsProfile_zero: "hsProfile g w 0 = exp (- g) + 0.3 * (1 - exp (- g))"
  by (simp add: hsProfile_def)

lemma hsProfile_zero_pos: "0 \<le> g \<Longrightarrow> 0 < hsProfile g w 0"
  unfolding hsProfile_zero by (intro add_pos_nonneg) simp_all

lemma scale_less:
  fixes u v m :: real
  assumes "u < v" and "0 < m"
  shows "u / m * 0.9 < v / m * 0.9"
  using assms by (simp add: divide_strict_right_mono)

text \<open>
  C7: the call with \<open>ra = 0.8\<close>, wavelength \<open>0.5\<close>, incident angle \<open>0\<close>, model
  \<^verbatim>\<open>'Harvey-Shack'\<close>, \<open>step = 1\<close>, \<open>reflectivity = 0.9\<close> and \<open>slopeFactor = 1\<close> (with the real
  cosine, and the sums of step 1, which are exact) returns exactly
  181 samples, at the integer angles \<open>- 90, \<dots>, 90\<close>. The sample of angle 0 (index 90) has
  the intensity \<open>0.9\<close>, every other sample a smaller one, and the intensity strictly
  decreases from angle 0 towards 90 and from angle 0 towards \<open>- 90\<close>.
\<close>

theorem harvey_shack_scenario:
  "\<exists>out. calculateScattering exactOps 0.8 0.5 0 ''Harvey-Shack'' 1 0.9 1 = Some out \<and>
     length out = 181 \<and>
     map angle out = map of_int [- 90..90] \<and>
     angle (out ! 90) = 0 \<and>
     intensity (out ! 90) = 0.9 \<and>
     (\<forall>i<181. i \<noteq> 90 \<longrightarrow> intensity (out ! i) < 0.9) \<and>
     (\<forall>i j. 90 \<le> i \<and> i < j \<and> j < 181 \<longrightarrow> intensity (out ! j) < intensity (out ! i)) \<and>
     (\<forall>i j. i < j \<and> j \<le> 90 \<longrightarrow> intensity (out ! i) < intensity (out ! j))"
proof -
  let ?g = "gParam exactOps 0.8 0.5 0"
  let ?f = "sample exactOps ''Harvey-Shack'' 0.8 0.5 0 1 1 ?g"
  define data where "data = map (\<lambda>j. ?f (- 90 + real j)) [0..<181]"
  define E where "E t = hsProfile ?g (1.5 * 1) t" for t
  define out where "out = normalise 0.9 data"
  have rm: "resolveModel ''Harvey-Shack'' ?g = ''Harvey-Shack''"
    by (simp add: resolveModel_def)
  have cs: "calculateScattering exactOps 0.8 0.5 0 ''Harvey-Shack'' 1 0.9 1 = Some out"
    unfolding calculateScattering_degrees [OF degrees_exact] rm out_def data_def by (rule refl)
  have len: "length data = 181"
    by (simp add: data_def)
  have nth: "data ! i = ?f (real i - 90)" if "i < 181" for i
    using that by (simp add: data_def add.commute)
  have raw: "intensity (data ! i) = E \<bar>real i - 90\<bar>" if "i < 181" for i
    unfolding nth [OF that] E_def by (rule hsProfile_sample) simp_all
  have g: "0 \<le> ?g" by (rule gParam_nonneg)
  have less: "E b < E a" if "0 \<le> a" and "a < b" and "b \<le> 90" for a b
    unfolding E_def using g _ that by (rule hsProfile_less) simp
  have pos: "0 < E 0"
    unfolding E_def by (rule hsProfile_zero_pos [OF g])
  have le0: "intensity (data ! i) \<le> E 0" if "i < 181" for i
  proof (cases "\<bar>real i - 90\<bar> = 0")
    case True
    with raw [OF that] show ?thesis by (simp only: order_refl)
  next
    case False
    have "E \<bar>real i - 90\<bar> < E 0"
      by (rule less) (use that False in simp_all)
    then show ?thesis by (simp add: raw [OF that])
  qed
  have mid: "intensity (data ! 90) = E 0"
    using raw [of 90] by simp
  have M: "rawMax data = E 0"
  proof (rule antisym)
    have "data ! 90 \<in> set data"
      by (rule nth_mem) (simp add: len)
    from rawMax_ge [OF this] show "E 0 \<le> rawMax data"
      by (simp add: mid)
    then have "rawMax data \<noteq> 0"
      using pos by simp
    with foldl_max_in [of 0 data] have "rawMax data \<in> intensity ` set data"
      by (simp add: rawMax_def)
    then obtain i where "i < 181" and "rawMax data = intensity (data ! i)"
      by (auto simp add: in_set_conv_nth len)
    with le0 show "rawMax data \<le> E 0"
      by simp
  qed
  have outi: "intensity (out ! i) = E \<bar>real i - 90\<bar> / E 0 * 0.9" if "i < 181" for i
    using that pos by (simp add: out_def normalise_def Let_def M len raw)
  have olen: "length out = 181"
    by (simp add: out_def length_normalise len)
  have angles: "map angle out = map of_int [- 90..90]"
    by (simp only: out_def data_def angle_normalise angle_samples integer_angles)
  have "angle (out ! 90) = map angle out ! 90"
    by (simp only: nth_map olen)
  also have "\<dots> = of_int ([- 90..90] ! 90)"
    unfolding angles by (rule nth_map) (simp only: length_upto)
  also have "[- 90..90] ! 90 = - 90 + int 90"
    by (rule nth_upto) simp
  finally have a0: "angle (out ! 90) = 0"
    by simp
  have peak: "intensity (out ! 90) = 0.9"
    using outi [of 90] pos by simp
  have right: "intensity (out ! j) < intensity (out ! i)" if "90 \<le> i" and "i < j" and "j < 181" for i j
  proof -
    have "E \<bar>real j - 90\<bar> < E \<bar>real i - 90\<bar>"
      by (rule less) (use that in simp_all)
    from scale_less [OF this pos] show ?thesis
      using that by (simp only: outi)
  qed
  have left: "intensity (out ! i) < intensity (out ! j)" if "i < j" and "j \<le> 90" for i j
  proof -
    have "E \<bar>real i - 90\<bar> < E \<bar>real j - 90\<bar>"
      by (rule less) (use that in simp_all)
    from scale_less [OF this pos] show ?thesis
      using that by (simp only: outi)
  qed
  have other: "intensity (out ! i) < 0.9" if "i < 181" and "i \<noteq> 90" for i
  proof (cases "i < 90")
    case True
    from left [of i 90] True show ?thesis by (simp add: peak)
  next
    case False
    with that have "90 < i" by simp
    from right [of 90 i] this that show ?thesis by (simp add: peak)
  qed
  from cs olen angles a0 peak other right left show ?thesis
    by (intro exI [of _ out]) blast
qed

theorem harvey_shack_scenario_witness:
  "\<exists>out. calculateScattering exactOps 0.8 0.5 0 ''Harvey-Shack'' 1 0.9 1 = Some out \<and>
     length out = 181 \<and>
     intensity (out ! 90) = 0.9 \<and>
     intensity (out ! 45) < 0.9 \<and>
     intensity (out ! 91) < intensity (out ! 90) \<and>
     intensity (out ! 0) < intensity (out ! 1)"
proof -
  from harvey_shack_scenario obtain out
    where o: "calculateScattering exactOps 0.8 0.5 0 ''Harvey-Shack'' 1 0.9 1 = Some out"
      and l: "length out = 181"
      and p: "intensity (out ! 90) = 0.9"
      and other: "\<forall>i<181. i \<noteq> 90 \<longrightarrow> intensity (out ! i) < 0.9"
      and right: "\<forall>i j. 90 \<le> i \<and> i < j \<and> j < 181 \<longrightarrow> intensity (out ! j) < intensity (out ! i)"
      and left: "\<forall>i j. i < j \<and> j \<le> 90 \<longrightarrow> intensity (out ! i) < intensity (out ! j)"
    by blast
  from other have a: "intensity (out ! 45) < 0.9"
    by simp
  from right have b: "intensity (out ! 91) < intensity (out ! 90)"
    by simp
  from left have c: "intensity (out ! 0) < intensity (out ! 1)"
    by simp
  from o l p a b c show ?thesis
    by blast
qed

section \<open>Properties of the energy statistics\<close>

lemma toFixed4_exact:
  assumes "v * 10000 = of_int n"
  shows "toFixed4 v = v"
proof -
  have a: "\<lfloor>v * 10000 + 1 / 2\<rfloor> = n"
    unfolding assms by linarith
  have "(- v) * 10000 = of_int (- n)"
    using assms by simp
  then have b: "\<lfloor>(- v) * 10000 + 1 / 2\<rfloor> = - n"
    by (simp only:) linarith
  have v: "of_int n / 10000 = v"
    using assms by simp
  have "toFixed4 v = (if v < 0 then - (of_int (- n) / 10000) else of_int n / 10000)"
    unfolding toFixed4_def a b by (rule refl)
  also have "\<dots> = of_int n / 10000"
    by simp
  finally show ?thesis
    by (simp only: v)
qed

lemma toFixed4_nonneg: "0 \<le> v \<Longrightarrow> 0 \<le> toFixed4 v"
  using toFixed4_mono [of 0 v] toFixed4_of_int [of 0] by simp

lemma foldl_intensity_sum:
  "foldl (\<lambda>acc d. acc + intensity d) s data = s + sum_list (map intensity data)"
  by (induction data arbitrary: s) simp_all

lemma ecLoop_reachCount:
  "ecLoop tot ds i s (c50, c90, 0) =
     (if c50 \<noteq> 0 then c50 else reachCount 0.50 tot (map intensity ds) i s,
      if c90 \<noteq> 0 then c90 else reachCount 0.90 tot (map intensity ds) i s,
      reachCount 0.99 tot (map intensity ds) i s)"
proof (induction ds arbitrary: i s c50 c90)
  case Nil
  show ?case by simp
next
  case (Cons d ds)
  show ?case
  proof (cases "(s + intensity d) / tot \<ge> 0.99")
    case True
    have "(0.90::real) \<le> 0.99" and "(0.50::real) \<le> 0.99"
      by simp_all
    from this [THEN order_trans, OF True]
    have "(s + intensity d) / tot \<ge> 0.90" and "(s + intensity d) / tot \<ge> 0.50" .
    with True show ?thesis
      by (simp add: Let_def)
  next
    case False
    then show ?thesis
      by (simp add: Let_def Cons.IH)
  qed
qed

lemma reachCount_gt: "reachCount t tot xs i s \<noteq> 0 \<Longrightarrow> i < reachCount t tot xs i s"
proof (induction xs arbitrary: i s)
  case Nil
  then show ?case by simp
next
  case (Cons x xs)
  show ?case
  proof (cases "(s + x) / tot \<ge> t")
    case True
    then show ?thesis by simp
  next
    case False
    with Cons.prems have "reachCount t tot xs (i + 1) (s + x) \<noteq> 0"
      by simp
    from Cons.IH [OF this] False show ?thesis
      by simp
  qed
qed

lemma reachCount_mono:
  assumes "t1 \<le> t2" and "reachCount t2 tot xs i s \<noteq> 0"
  shows "reachCount t1 tot xs i s \<noteq> 0 \<and> reachCount t1 tot xs i s \<le> reachCount t2 tot xs i s"
  using assms(2)
proof (induction xs arbitrary: i s)
  case Nil
  then show ?case by simp
next
  case (Cons x xs)
  show ?case
  proof (cases "(s + x) / tot \<ge> t2")
    case True
    with assms(1) have "(s + x) / tot \<ge> t1" by simp
    with True show ?thesis by simp
  next
    case False
    with Cons.prems have r: "reachCount t2 tot xs (i + 1) (s + x) \<noteq> 0"
      by simp
    show ?thesis
    proof (cases "(s + x) / tot \<ge> t1")
      case True
      from reachCount_gt [OF r] True False show ?thesis
        by simp
    next
      case False
      with \<open>\<not> (s + x) / tot \<ge> t2\<close> Cons.IH [OF r] show ?thesis
        by simp
    qed
  qed
qed

lemma reachCount_total:
  assumes "tot \<noteq> 0" and "t \<le> 1"
  shows "xs \<noteq> [] \<Longrightarrow> s + sum_list xs = tot \<Longrightarrow> reachCount t tot xs i s \<noteq> 0"
proof (induction xs arbitrary: i s)
  case Nil
  then show ?case by simp
next
  case (Cons x xs)
  show ?case
  proof (cases "(s + x) / tot \<ge> t")
    case True
    then show ?thesis by simp
  next
    case False
    have "xs \<noteq> []"
    proof
      assume "xs = []"
      with Cons.prems(2) have "(s + x) / tot = 1"
        using assms(1) by simp
      with False assms(2) show False by simp
    qed
    moreover have "(s + x) + sum_list xs = tot"
      using Cons.prems(2) by simp
    ultimately have "reachCount t tot xs (i + 1) (s + x) \<noteq> 0"
      by (rule Cons.IH)
    with False show ?thesis by simp
  qed
qed

text \<open>What \<open>reachCount\<close> returns: 0 when no running sum reaches \<open>t\<close>, and otherwise the index
  of the first that does, counted from \<open>i + 1\<close>.\<close>

lemma reachCount_none:
  "reachCount t tot xs i s = 0 \<longleftrightarrow> (\<forall>k<length xs. \<not> t \<le> (s + sum_list (take (Suc k) xs)) / tot)"
proof (induction xs arbitrary: i s)
  case Nil
  show ?case by simp
next
  case (Cons x xs)
  show ?case
  proof (cases "(s + x) / tot \<ge> t")
    case True
    then have "\<not> (\<forall>k<length (x # xs). \<not> t \<le> (s + sum_list (take (Suc k) (x # xs))) / tot)"
      by (auto intro!: exI [of _ 0])
    with True show ?thesis by simp
  next
    case False
    have "(\<forall>k<length (x # xs). \<not> t \<le> (s + sum_list (take (Suc k) (x # xs))) / tot) \<longleftrightarrow>
          (\<forall>k<length xs. \<not> t \<le> ((s + x) + sum_list (take (Suc k) xs)) / tot)"
      using False by (auto simp add: less_Suc_eq_0_disj add.assoc)
    with False Cons.IH [of "i + 1" "s + x"] show ?thesis
      by simp
  qed
qed

lemma reachCount_first:
  assumes "reachCount t tot xs i s \<noteq> 0"
  shows "\<exists>k<length xs. reachCount t tot xs i s = i + k + 1 \<and>
           t \<le> (s + sum_list (take (Suc k) xs)) / tot \<and>
           (\<forall>j<k. \<not> t \<le> (s + sum_list (take (Suc j) xs)) / tot)"
  using assms
proof (induction xs arbitrary: i s)
  case Nil
  then show ?case by simp
next
  case (Cons x xs)
  show ?case
  proof (cases "(s + x) / tot \<ge> t")
    case True
    then show ?thesis
      by (intro exI [of _ 0]) simp
  next
    case False
    with Cons.prems have "reachCount t tot xs (i + 1) (s + x) \<noteq> 0"
      by simp
    from Cons.IH [OF this] obtain k where k: "k < length xs"
      and r: "reachCount t tot xs (i + 1) (s + x) = i + 1 + k + 1"
      and h: "t \<le> ((s + x) + sum_list (take (Suc k) xs)) / tot"
      and l: "\<forall>j<k. \<not> t \<le> ((s + x) + sum_list (take (Suc j) xs)) / tot"
      by blast
    have "\<forall>j<Suc k. \<not> t \<le> (s + sum_list (take (Suc j) (x # xs))) / tot"
      using False l by (auto simp add: less_Suc_eq_0_disj add.assoc)
    with k r h False show ?thesis
      by (intro exI [of _ "Suc k"]) (simp add: add.assoc)
  qed
qed

lemma sortDesc_mset: "mset (sortDesc data) = mset data"
  by (simp add: sortDesc_def)

lemma sortDesc_sum: "sum_list (map intensity (sortDesc data)) = sum_list (map intensity data)"
proof -
  have "sum_list (map intensity (sortDesc data)) = sum_mset (image_mset intensity (mset (sortDesc data)))"
    by (simp only: sum_mset_sum_list [symmetric] mset_map)
  also have "\<dots> = sum_mset (image_mset intensity (mset data))"
    by (simp only: sortDesc_mset)
  also have "\<dots> = sum_list (map intensity data)"
    by (simp only: sum_mset_sum_list [symmetric] mset_map)
  finally show ?thesis .
qed

lemma sortDesc_descending: "sorted_wrt (\<lambda>a b. intensity b \<le> intensity a) (sortDesc data)"
proof -
  have "sorted (map (\<lambda>d. - intensity d) (sortDesc data))"
    unfolding sortDesc_def by (rule sorted_sort_key)
  then show ?thesis
    by (simp add: sorted_map)
qed

lemma sortDesc_Nil_iff: "sortDesc data = [] \<longleftrightarrow> data = []"
  using sortDesc_mset [of data] by (metis mset_zero_iff)

lemma energy_counts:
  assumes "sum_list (map intensity data) \<noteq> 0"
  shows "calculateEnergyConcentration data step =
    \<lparr>e50 = toFixed4 (real (reachCount 0.50 (sum_list (map intensity data))
                              (map intensity (sortDesc data)) 0 0) * step),
     e90 = toFixed4 (real (reachCount 0.90 (sum_list (map intensity data))
                              (map intensity (sortDesc data)) 0 0) * step),
     e99 = toFixed4 (real (reachCount 0.99 (sum_list (map intensity data))
                              (map intensity (sortDesc data)) 0 0) * step)\<rparr>"
  using assms
  by (simp add: calculateEnergyConcentration_def Let_def foldl_intensity_sum ecLoop_reachCount)

lemma energy_zero:
  assumes "sum_list (map intensity data) = 0"
  shows "calculateEnergyConcentration data step = \<lparr>e50 = 0, e90 = 0, e99 = 0\<rparr>"
  using assms
  by (simp add: calculateEnergyConcentration_def Let_def foldl_intensity_sum)

lemma counts_ordered:
  assumes "sum_list (map intensity data) \<noteq> 0"
  shows "reachCount 0.50 (sum_list (map intensity data)) (map intensity (sortDesc data)) 0 0
           \<le> reachCount 0.90 (sum_list (map intensity data)) (map intensity (sortDesc data)) 0 0 \<and>
         reachCount 0.90 (sum_list (map intensity data)) (map intensity (sortDesc data)) 0 0
           \<le> reachCount 0.99 (sum_list (map intensity data)) (map intensity (sortDesc data)) 0 0 \<and>
         0 < reachCount 0.50 (sum_list (map intensity data)) (map intensity (sortDesc data)) 0 0"
proof -
  let ?tot = "sum_list (map intensity data)"
  let ?xs = "map intensity (sortDesc data)"
  have "data \<noteq> []"
    using assms by auto
  then have ne: "?xs \<noteq> []"
    by (simp add: sortDesc_Nil_iff)
  have sum: "0 + sum_list ?xs = ?tot"
    by (simp add: sortDesc_sum)
  have r99: "reachCount 0.99 ?tot ?xs 0 0 \<noteq> 0"
    by (rule reachCount_total [OF assms _ ne sum]) simp
  have a: "reachCount 0.90 ?tot ?xs 0 0 \<noteq> 0 \<and> reachCount 0.90 ?tot ?xs 0 0 \<le> reachCount 0.99 ?tot ?xs 0 0"
    by (rule reachCount_mono [OF _ r99]) simp
  then have r90: "reachCount 0.90 ?tot ?xs 0 0 \<noteq> 0" ..
  have b: "reachCount 0.50 ?tot ?xs 0 0 \<noteq> 0 \<and> reachCount 0.50 ?tot ?xs 0 0 \<le> reachCount 0.90 ?tot ?xs 0 0"
    by (rule reachCount_mono [OF _ r90]) simp
  from a b show ?thesis by simp
qed

text \<open>
  C5, as amended: with \<open>total\<close> the sum of the intensities, \<^verbatim>\<open>calculateEnergyConcentration\<close>
  returns \<open>{e50: 0, e90: 0, e99: 0}\<close> if \<open>total = 0\<close>. Otherwise the samples are sorted by
  intensity, descending (a permutation of the input), and for each of the thresholds 0.50,
  0.90 and 0.99 the count is \<open>i + 1\<close> for the first index \<open>i\<close> at which the running sum
  divided by \<open>total\<close> reaches the threshold (\<open>reachCount\<close>); the \<^verbatim>\<open>break\<close> at the 99%
  threshold changes none of the three. Each result is \<open>count * step\<close> rounded to four
  decimals, which is \<open>count * step\<close> itself when \<open>step\<close> is a multiple of \<open>0.0001\<close>.
\<close>

theorem energy_concentration_counts:
  "(sum_list (map intensity data) = 0 \<longrightarrow>
      calculateEnergyConcentration data step = \<lparr>e50 = 0, e90 = 0, e99 = 0\<rparr>) \<and>
   (sum_list (map intensity data) \<noteq> 0 \<longrightarrow>
      calculateEnergyConcentration data step =
        \<lparr>e50 = toFixed4 (real (reachCount 0.50 (sum_list (map intensity data))
                                  (map intensity (sortDesc data)) 0 0) * step),
         e90 = toFixed4 (real (reachCount 0.90 (sum_list (map intensity data))
                                  (map intensity (sortDesc data)) 0 0) * step),
         e99 = toFixed4 (real (reachCount 0.99 (sum_list (map intensity data))
                                  (map intensity (sortDesc data)) 0 0) * step)\<rparr>) \<and>
   foldl (\<lambda>acc d. acc + intensity d) 0 data = sum_list (map intensity data) \<and>
   mset (sortDesc data) = mset data \<and>
   sorted_wrt (\<lambda>a b. intensity b \<le> intensity a) (sortDesc data) \<and>
   ((\<exists>n::int. step * 10000 = of_int n) \<longrightarrow> toFixed4 (real c * step) = real c * step)"
proof -
  have "toFixed4 (real c * step) = real c * step" if "step * 10000 = of_int n" for n :: int
  proof (rule toFixed4_exact)
    show "real c * step * 10000 = of_int (int c * n)"
      using that by simp
  qed
  then have "(\<exists>n::int. step * 10000 = of_int n) \<longrightarrow> toFixed4 (real c * step) = real c * step"
    by blast
  moreover have "foldl (\<lambda>acc d. acc + intensity d) 0 data = sum_list (map intensity data)"
    by (simp add: foldl_intensity_sum)
  ultimately show ?thesis
    using energy_zero [of data step] energy_counts [of data step]
      sortDesc_mset [of data] sortDesc_descending [of data]
    by blast
qed

theorem energy_concentration_counts_witness:
  "calculateEnergyConcentration [\<lparr>angle = 0, intensity = 1\<rparr>, \<lparr>angle = 1, intensity = 3\<rparr>] 1 =
     \<lparr>e50 = 1, e90 = 2, e99 = 2\<rparr> \<and>
   calculateEnergyConcentration [\<lparr>angle = 0, intensity = 0\<rparr>] 1 = \<lparr>e50 = 0, e90 = 0, e99 = 0\<rparr>"
proof -
  let ?data = "[\<lparr>angle = 0, intensity = 1\<rparr>, \<lparr>angle = 1, intensity = 3\<rparr>]"
  have tot: "sum_list (map intensity ?data) = 4"
    by simp
  have s: "map intensity (sortDesc ?data) = [3, 1]"
    by (simp add: sortDesc_def)
  have r: "reachCount 0.50 4 [3, 1] 0 0 = 1" "reachCount 0.90 4 [3, 1] 0 0 = 2"
    "reachCount 0.99 4 [3, 1] 0 0 = 2"
    by simp_all
  have t: "toFixed4 (real 1 * 1) = 1" "toFixed4 (real 2 * 1) = 2"
    using toFixed4_of_int [of 1] toFixed4_of_int [of 2] by simp_all
  have ne: "sum_list (map intensity ?data) \<noteq> 0"
    by simp
  from energy_concentration_counts [of ?data 1 0] ne
  have "calculateEnergyConcentration ?data 1 =
        \<lparr>e50 = toFixed4 (real (reachCount 0.50 (sum_list (map intensity ?data))
                                  (map intensity (sortDesc ?data)) 0 0) * 1),
         e90 = toFixed4 (real (reachCount 0.90 (sum_list (map intensity ?data))
                                  (map intensity (sortDesc ?data)) 0 0) * 1),
         e99 = toFixed4 (real (reachCount 0.99 (sum_list (map intensity ?data))
                                  (map intensity (sortDesc ?data)) 0 0) * 1)\<rparr>"
    by blast
  then have a: "calculateEnergyConcentration ?data 1 = \<lparr>e50 = 1, e90 = 2, e99 = 2\<rparr>"
    unfolding tot s r t .
  have z: "sum_list (map intensity [\<lparr>angle = 0, intensity = 0\<rparr>]) = 0"
    by simp
  from energy_concentration_counts [of "[\<lparr>angle = 0, intensity = 0\<rparr>]" 1 0] z
  have b: "calculateEnergyConcentration [\<lparr>angle = 0, intensity = 0\<rparr>] 1 = \<lparr>e50 = 0, e90 = 0, e99 = 0\<rparr>"
    by blast
  from a b show ?thesis by (rule conjI)
qed

text \<open>
  C5 as stated fails for a step that is no multiple of \<open>0.0001\<close>: for the single sample of
  intensity 1 and \<open>step = 0.00004\<close> the count of the 50% threshold is 1, and \<open>e50\<close> is 0,
  not \<open>1 * 0.00004\<close>.
\<close>

theorem energy_rounding_counterexample:
  "reachCount 0.50 1 [1] 0 0 = 1 \<and>
   e50 (calculateEnergyConcentration [\<lparr>angle = 0, intensity = 1\<rparr>] 0.00004) = 0 \<and>
   e50 (calculateEnergyConcentration [\<lparr>angle = 0, intensity = 1\<rparr>] 0.00004)
     \<noteq> real (reachCount 0.50 1 [1] 0 0) * 0.00004"
proof -
  have r: "reachCount 0.50 1 [1] 0 0 = 1"
    by simp
  have "toFixed4 (real 1 * 0.00004) = 0"
    by (simp add: toFixed4_def)
  then have e: "e50 (calculateEnergyConcentration [\<lparr>angle = 0, intensity = 1\<rparr>] 0.00004) = 0"
    by (simp add: energy_counts sortDesc_def)
  from r e show ?thesis by simp
qed

text \<open>
  C6: for a distribution with a total intensity above 0 and a step above 0, the returned
  statistics satisfy \<open>e50 \<le> e90 \<le> e99\<close>, and all three are non-negative. The total is the
  sum of the intensities, which the \<^verbatim>\<open>reduce\<close> of the source computes
  (\<open>foldl_intensity_sum\<close>).
\<close>

theorem energy_widths_ordered:
  assumes "0 < sum_list (map intensity data)" and "0 < step"
  shows "e50 (calculateEnergyConcentration data step) \<le> e90 (calculateEnergyConcentration data step) \<and>
    e90 (calculateEnergyConcentration data step) \<le> e99 (calculateEnergyConcentration data step) \<and>
    0 \<le> e50 (calculateEnergyConcentration data step) \<and>
    0 \<le> e90 (calculateEnergyConcentration data step) \<and>
    0 \<le> e99 (calculateEnergyConcentration data step)"
proof -
  let ?tot = "sum_list (map intensity data)"
  let ?xs = "map intensity (sortDesc data)"
  have ne: "?tot \<noteq> 0"
    using assms(1) by simp
  from counts_ordered [OF ne]
  have a: "reachCount 0.50 ?tot ?xs 0 0 \<le> reachCount 0.90 ?tot ?xs 0 0"
    and b: "reachCount 0.90 ?tot ?xs 0 0 \<le> reachCount 0.99 ?tot ?xs 0 0"
    by simp_all
  have m: "toFixed4 (real c * step) \<le> toFixed4 (real d * step)" if "c \<le> d" for c d :: nat
    by (rule toFixed4_mono) (use that assms(2) in simp)
  have z: "0 \<le> toFixed4 (real c * step)" for c :: nat
    by (rule toFixed4_nonneg) (use assms(2) in simp)
  show ?thesis
    unfolding energy_counts [OF ne] using m [OF a] m [OF b] z by simp
qed

theorem energy_widths_ordered_witness:
  "(0::real) < sum_list (map intensity [\<lparr>angle = 0, intensity = 1\<rparr>, \<lparr>angle = 1, intensity = 3\<rparr>]) \<and>
   (0::real) < 1 \<and>
   e50 (calculateEnergyConcentration [\<lparr>angle = 0, intensity = 1\<rparr>, \<lparr>angle = 1, intensity = 3\<rparr>] 1)
     \<le> e90 (calculateEnergyConcentration [\<lparr>angle = 0, intensity = 1\<rparr>, \<lparr>angle = 1, intensity = 3\<rparr>] 1) \<and>
   e90 (calculateEnergyConcentration [\<lparr>angle = 0, intensity = 1\<rparr>, \<lparr>angle = 1, intensity = 3\<rparr>] 1)
     \<le> e99 (calculateEnergyConcentration [\<lparr>angle = 0, intensity = 1\<rparr>, \<lparr>angle = 1, intensity = 3\<rparr>] 1)"
proof -
  have h1: "(0::real) < sum_list (map intensity [\<lparr>angle = 0, intensity = 1\<rparr>, \<lparr>angle = 1, intensity = 3\<rparr>])"
    by simp
  have h2: "(0::real) < 1"
    by simp
  from energy_widths_ordered [OF h1 h2] h1 h2 show ?thesis
    by blast
qed

section \<open>Properties of the 2-D height field\<close>

lemma length_near: "length (near sz i) = (if 0 < i then 1 else 0) + 1 + (if i + 1 < sz then 1 else 0)"
  by (simp add: near_def)

lemma set_near: "i < sz \<Longrightarrow> set (near sz i) = {ni. ni < sz \<and> ni \<le> i + 1 \<and> i \<le> ni + 1}"
  by (auto simp add: near_def)

lemma distinct_near: "distinct (near sz i)"
  by (auto simp add: near_def)

lemma window_product: "window sz i j = List.product (near sz i) (near sz j)"
  by (simp add: window_def product_concat_map)

lemma length_window: "length (window sz i j) = length (near sz i) * length (near sz j)"
  by (simp only: window_product length_product)

lemma set_window:
  assumes "i < sz" and "j < sz"
  shows "set (window sz i j) =
    {(ni, nj). ni < sz \<and> nj < sz \<and> ni \<le> i + 1 \<and> i \<le> ni + 1 \<and> nj \<le> j + 1 \<and> j \<le> nj + 1}"
  unfolding window_product by (auto simp add: set_near [OF assms(1)] set_near [OF assms(2)])

lemma distinct_window: "distinct (window sz i j)"
  unfolding window_product by (rule distinct_product) (rule distinct_near)+

lemma window_count:
  assumes "i < sz" and "j < sz" and "2 \<le> sz"
  shows "length (window sz i j) =
    (if (i = 0 \<or> i = sz - 1) \<and> (j = 0 \<or> j = sz - 1) then 4
     else if i = 0 \<or> i = sz - 1 \<or> j = 0 \<or> j = sz - 1 then 6 else 9)"
proof -
  have n: "length (near sz k) = (if k = 0 \<or> k = sz - 1 then 2 else 3)" if "k < sz" for k
    using that assms(3) by (auto simp add: length_near)
  show ?thesis
    by (simp add: length_window n [OF assms(1)] n [OF assms(2)])
qed

lemma visit_fold:
  assumes "i < sz" and "j < sz"
  shows "foldl (visit grid sz i j) (0, 0) offsets =
    (sum_list (map (\<lambda>(ni, nj). grid ! ni ! nj) (window sz i j)), length (window sz i j))"
proof -
  have m: "nat (int k - 1) = k - 1" "nat (int k + 1) = k + 1" "nat (int k) = k" for k :: nat
    by simp_all
  show ?thesis
    using assms
    by (cases "i = 0"; cases "i + 1 < sz"; cases "j = 0"; cases "j + 1 < sz")
       (simp_all add: offsets_def visit_def window_def near_def m)
qed

lemma smoothCell_window:
  assumes "i < sz" and "j < sz"
  shows "smoothCell grid sz i j =
    sum_list (map (\<lambda>(ni, nj). grid ! ni ! nj) (window sz i j)) / real (length (window sz i j))"
  by (simp add: smoothCell_def visit_fold [OF assms])

lemma cellCount_window:
  assumes "i < sz" and "j < sz"
  shows "cellCount grid sz i j = length (window sz i j)"
  by (simp add: cellCount_def visit_fold [OF assms])

lemma rawGrid_nth:
  assumes "ni < sz" and "nj < sz"
  shows "rawGrid rnd rq sz ! ni ! nj = (rnd (ni * sz + nj) - 0.5) * 2 * rq"
  using assms by (simp add: rawGrid_def)

lemma generateSurfaceProfile3D_nth:
  assumes "i < sz" and "j < sz"
  shows "generateSurfaceProfile3D rnd ra sz ! i ! j = smoothCell (rawGrid rnd (ra * 1.25) sz) sz i j"
  using assms by (simp add: generateSurfaceProfile3D_def Let_def)

text \<open>
  C8, as amended: the result is a \<open>size\<close> by \<open>size\<close> grid, and each cell \<open>(i, j)\<close> is the
  arithmetic mean of the raw cells of its 3 by 3 window that lie in the grid (no wrapping):
  the cells \<open>(ni, nj)\<close> with \<open>\<bar>ni - i\<bar> \<le> 1\<close> and \<open>\<bar>nj - j\<bar> \<le> 1\<close>, each once. For
  \<open>size \<ge> 2\<close> these are exactly 4 cells at a corner, 6 cells on an edge and 9 cells in the
  interior; for \<open>size = 1\<close> the single cell is the mean of 1 cell, itself.
\<close>

theorem box_blur_window:
  assumes "i < sz" and "j < sz"
  shows "length (generateSurfaceProfile3D rnd ra sz) = sz \<and>
    length (generateSurfaceProfile3D rnd ra sz ! i) = sz \<and>
    generateSurfaceProfile3D rnd ra sz ! i ! j =
      sum_list (map (\<lambda>(ni, nj). rawGrid rnd (ra * 1.25) sz ! ni ! nj) (window sz i j))
        / real (length (window sz i j)) \<and>
    cellCount (rawGrid rnd (ra * 1.25) sz) sz i j = length (window sz i j) \<and>
    distinct (window sz i j) \<and>
    set (window sz i j) =
      {(ni, nj). ni < sz \<and> nj < sz \<and> ni \<le> i + 1 \<and> i \<le> ni + 1 \<and> nj \<le> j + 1 \<and> j \<le> nj + 1} \<and>
    (2 \<le> sz \<longrightarrow> length (window sz i j) =
       (if (i = 0 \<or> i = sz - 1) \<and> (j = 0 \<or> j = sz - 1) then 4
        else if i = 0 \<or> i = sz - 1 \<or> j = 0 \<or> j = sz - 1 then 6 else 9)) \<and>
    (sz = 1 \<longrightarrow> length (window sz i j) = 1)"
proof -
  have a: "length (generateSurfaceProfile3D rnd ra sz) = sz"
    by (simp add: generateSurfaceProfile3D_def Let_def)
  have b: "length (generateSurfaceProfile3D rnd ra sz ! i) = sz"
    using assms(1) by (simp add: generateSurfaceProfile3D_def Let_def)
  have c: "generateSurfaceProfile3D rnd ra sz ! i ! j =
      sum_list (map (\<lambda>(ni, nj). rawGrid rnd (ra * 1.25) sz ! ni ! nj) (window sz i j))
        / real (length (window sz i j))"
    by (simp only: generateSurfaceProfile3D_nth [OF assms] smoothCell_window [OF assms])
  have d: "cellCount (rawGrid rnd (ra * 1.25) sz) sz i j = length (window sz i j)"
    by (rule cellCount_window [OF assms])
  have e: "2 \<le> sz \<longrightarrow> length (window sz i j) =
       (if (i = 0 \<or> i = sz - 1) \<and> (j = 0 \<or> j = sz - 1) then 4
        else if i = 0 \<or> i = sz - 1 \<or> j = 0 \<or> j = sz - 1 then 6 else 9)"
    using window_count [OF assms] by blast
  have f: "sz = 1 \<longrightarrow> length (window sz i j) = 1"
    using assms by (auto simp add: length_window length_near)
  from a b c d e f distinct_window [of sz i j] set_window [OF assms] show ?thesis
    by blast
qed

theorem box_blur_window_witness:
  "(0::nat) < 3 \<and> (1::nat) < 3 \<and>
   length (window 3 0 0) = 4 \<and> length (window 3 0 1) = 6 \<and> length (window 3 1 1) = 9 \<and>
   generateSurfaceProfile3D (\<lambda>k. real k) 1 3 ! 0 ! 0 =
     sum_list (map (\<lambda>(ni, nj). rawGrid (\<lambda>k. real k) (1 * 1.25) 3 ! ni ! nj) [(0, 0), (0, 1), (1, 0), (1, 1)]) / 4"
proof -
  have h0: "(0::nat) < 3" and h1: "(1::nat) < 3"
    by simp_all
  have w: "window 3 0 0 = [(0, 0), (0, 1), (1, 0), (1, 1)]"
    by (simp add: window_def near_def)
  from box_blur_window [OF h0 h0, of "\<lambda>k. real k" 1]
  have a: "length (window 3 0 0) = 4"
    and v: "generateSurfaceProfile3D (\<lambda>k. real k) 1 3 ! 0 ! 0 =
      sum_list (map (\<lambda>(ni, nj). rawGrid (\<lambda>k. real k) (1 * 1.25) 3 ! ni ! nj) (window 3 0 0))
        / real (length (window 3 0 0))"
    by simp_all
  from box_blur_window [OF h0 h1, of "\<lambda>k. real k" 1]
  have b: "length (window 3 0 1) = 6"
    by simp
  from box_blur_window [OF h1 h1, of "\<lambda>k. real k" 1]
  have c: "length (window 3 1 1) = 9"
    by simp
  have "generateSurfaceProfile3D (\<lambda>k. real k) 1 3 ! 0 ! 0 =
     sum_list (map (\<lambda>(ni, nj). rawGrid (\<lambda>k. real k) (1 * 1.25) 3 ! ni ! nj) [(0, 0), (0, 1), (1, 0), (1, 1)]) / 4"
    using v unfolding a unfolding w by simp
  with h0 h1 a b c show ?thesis
    by blast
qed

text \<open>
  C8 as stated fails for \<open>size = 1\<close>: the only cell is a corner, the loops add up 1 cell,
  not 4, and the result is the raw grid.
\<close>

theorem single_cell_counterexample:
  "cellCount (rawGrid (\<lambda>k. 1) (1 * 1.25) 1) 1 0 0 = 1 \<and>
   cellCount (rawGrid (\<lambda>k. 1) (1 * 1.25) 1) 1 0 0 \<noteq> 4 \<and>
   generateSurfaceProfile3D (\<lambda>k. 1) 1 1 = rawGrid (\<lambda>k. 1) (1 * 1.25) 1"
proof -
  have "cellCount (rawGrid (\<lambda>k. 1) (1 * 1.25) 1) 1 0 0 = 1"
    by (simp add: cellCount_window length_window length_near)
  moreover have "generateSurfaceProfile3D (\<lambda>k. 1) 1 1 = rawGrid (\<lambda>k. 1) (1 * 1.25) 1"
    by (simp add: generateSurfaceProfile3D_def Let_def smoothCell_window window_def near_def rawGrid_def)
  ultimately show ?thesis by simp
qed

end
